theory Spec2Isabelle
  imports Main "HOL-Library.Sublist"
begin

chapter \<open>The model of \<open>src/NewsApp.js\<close>\<close>

section \<open>JavaScript values\<close>

text \<open>
  The values that \<open>response.json()\<close> and \<open>JSON.parse\<close> hand to the program.
  Texts are lists of 8-bit characters (code units below 256); numbers are integers, which
  is what JavaScript computes as long as they stay below \<open>2 ^ 53\<close>. An object keeps its
  members in the order they were written; a later member with the same key overrides an
  earlier one, as \<open>JSON.parse\<close> has it.
\<close>

datatype js =
    JUndefined
  | JNull
  | JBool bool
  | JNum int
  | JStr string
  | JArr "js list"
  | JObj "(string \<times> js) list"

text \<open>What a \<open>try\<close> block of the source can catch.\<close>

datatype js_error =
    TypeError
  | SyntaxError
  | HttpError nat
  | NetworkError

text \<open>\<open>Boolean(v)\<close>, the test behind \<open>if (v)\<close>, \<open>!v\<close>, \<open>a || b\<close>, \<open>a && b\<close> and \<open>filter(Boolean)\<close>.\<close>

fun truthy :: "js \<Rightarrow> bool" where
  "truthy JUndefined = False"
| "truthy JNull = False"
| "truthy (JBool b) = b"
| "truthy (JNum n) = (n \<noteq> 0)"
| "truthy (JStr s) = (s \<noteq> [])"
| "truthy (JArr xs) = True"
| "truthy (JObj kvs) = True"

fun isArray :: "js \<Rightarrow> bool" where
  "isArray (JArr xs) = True"
| "isArray v = False"

definition member_of :: "(string \<times> js) list \<Rightarrow> string \<Rightarrow> js" where
  "member_of kvs k = (case map_of (rev kvs) k of None \<Rightarrow> JUndefined | Some v \<Rightarrow> v)"

text \<open>
  \<open>v.k\<close> for the named properties the source reads (\<open>clusters\<close>, \<open>hits\<close>, \<open>articles\<close>,
  \<open>choices\<close>, \<open>message\<close>, \<open>content\<close>, \<open>type\<close> and the rating fields): reading a property
  of \<open>undefined\<close> or \<open>null\<close> throws, an object answers with its member or \<open>undefined\<close>,
  and arrays, texts, numbers and booleans have no property of these names.
\<close>

fun getProp :: "js \<Rightarrow> string \<Rightarrow> js_error + js" where
  "getProp JUndefined k = Inl TypeError"
| "getProp JNull k = Inl TypeError"
| "getProp (JObj kvs) k = Inr (member_of kvs k)"
| "getProp v k = Inr JUndefined"

definition digitChar :: "nat \<Rightarrow> char" where
  "digitChar n = ''0123456789'' ! (n mod 10)"

fun showNat :: "nat \<Rightarrow> string" where
  "showNat n = (if n < 10 then [digitChar n] else showNat (n div 10) @ [digitChar n])"

declare showNat.simps [simp del]

definition showInt :: "int \<Rightarrow> string" where
  "showInt i = (if i < 0 then CHR ''-'' # showNat (nat (- i)) else showNat (nat i))"

text \<open>\<open>v[i]\<close> for a constant index \<open>i\<close> (the source reads index 0 only).\<close>

fun getIndex :: "js \<Rightarrow> nat \<Rightarrow> js_error + js" where
  "getIndex JUndefined i = Inl TypeError"
| "getIndex JNull i = Inl TypeError"
| "getIndex (JArr xs) i = Inr (if i < length xs then xs ! i else JUndefined)"
| "getIndex (JStr s) i = Inr (if i < length s then JStr [s ! i] else JUndefined)"
| "getIndex (JObj kvs) i = Inr (member_of kvs (showNat i))"
| "getIndex v i = Inr JUndefined"

text \<open>Sequencing inside a \<open>try\<close> block: the first exception ends the block.\<close>

definition andThen :: "js_error + 'a \<Rightarrow> ('a \<Rightarrow> js_error + 'b) \<Rightarrow> js_error + 'b" where
  "andThen r f = (case r of Inl e \<Rightarrow> Inl e | Inr v \<Rightarrow> f v)"

section \<open>Texts\<close>

definition isDigit :: "char \<Rightarrow> bool" where
  "isDigit c = (48 \<le> (of_char c :: nat) \<and> (of_char c :: nat) \<le> 57)"

text \<open>The line terminators that \<open>.\<close> of a regular expression does not match.\<close>

definition isLineTerminator :: "char \<Rightarrow> bool" where
  "isLineTerminator c = (c = CHR 0x0A \<or> c = CHR 0x0D)"

text \<open>White space as \<open>\s\<close> and \<open>trim\<close> see it, among the code units below 256.\<close>

definition isSpace :: "char \<Rightarrow> bool" where
  "isSpace c = (c \<in> set [CHR 0x09, CHR 0x0A, CHR 0x0B, CHR 0x0C, CHR 0x0D, CHR 0x20, CHR 0xA0])"

definition trim :: "string \<Rightarrow> string" where
  "trim s = rev (dropWhile isSpace (rev (dropWhile isSpace s)))"

text \<open>\<open>s.split(sep)\<close> for a separator of one character: never an empty list.\<close>

fun split :: "char \<Rightarrow> string \<Rightarrow> string list" where
  "split sep [] = [[]]"
| "split sep (c # cs) =
     (if c = sep then [] # split sep cs
      else (case split sep cs of
              [] \<Rightarrow> [[c]]
            | l # ls \<Rightarrow> (c # l) # ls))"

text \<open>\<open>parts.join(sep)\<close>\<close>

definition joinWith :: "string \<Rightarrow> string list \<Rightarrow> string" where
  "joinWith sep parts =
     (case parts of [] \<Rightarrow> [] | p # ps \<Rightarrow> p @ concat (map (\<lambda>q. sep @ q) ps))"

definition digitValue :: "char \<Rightarrow> nat" where
  "digitValue c = of_char c - 48"

text \<open>
  \<open>parseInt\<close> on a text of decimal digits. The model computes the integer that the digits
  write. \<open>parseInt\<close> returns the Number nearest to it, which is that integer as long as
  it is a safe integer, at most \<open>2 ^ 53 - 1\<close>; the statements about \<open>parseInt\<close> are made
  within this bound.
\<close>

definition parseInt :: "string \<Rightarrow> int" where
  "parseInt ds = int (foldl (\<lambda>n c. 10 * n + digitValue c) 0 ds)"

text \<open>
  The conversion to a text behind \<open>result += v\<close>. A number prints its decimal digits (as
  JavaScript prints a safe integer). An array joins its elements with commas, \<open>null\<close> and
  \<open>undefined\<close> elements as empty texts. An object of \<open>JSON.parse\<close> holds no function, so
  one with a member \<open>toString\<close> of its own has no usable conversion and the operation
  throws; every other object prints through \<open>Object.prototype.toString\<close>.
\<close>

fun toString :: "js \<Rightarrow> js_error + string" where
  "toString JUndefined = Inr ''undefined''"
| "toString JNull = Inr ''null''"
| "toString (JBool b) = Inr (if b then ''true'' else ''false'')"
| "toString (JNum n) = Inr (showInt n)"
| "toString (JStr s) = Inr s"
| "toString (JArr xs) =
     (let parts = map (\<lambda>x. if x = JUndefined \<or> x = JNull then Inr [] else toString x) xs in
      case filter isl parts of
        [] \<Rightarrow> Inr (joinWith '','' (map projr parts))
      | failed # others \<Rightarrow> Inl (projl failed))"
| "toString (JObj kvs) =
     (if ''toString'' \<in> fst ` set kvs then Inl TypeError else Inr ''[object Object]'')"

section \<open>A reader for JSON texts\<close>

text \<open>
  \<open>JSON.parse\<close> belongs to the runtime, not to the program: the functions that call it take
  it as the parameter \<open>parse\<close>, \<open>None\<close> standing for the \<open>SyntaxError\<close> it throws. The reader
  below is used to run the model on concrete frames. It follows the JSON grammar: white
  space, the six structural characters, string literals with their escapes, \<open>true\<close>, \<open>false\<close>,
  \<open>null\<close> and integer literals. Two things are outside the value model and are refused by
  the reader although JavaScript accepts them: number literals with a fraction or an
  exponent, and \<open>\uXXXX\<close> escapes of code units from 256 on.
\<close>

datatype token =
    TLBrace | TRBrace | TLBracket | TRBracket | TColon | TComma
  | TString string | TNumber int | TTrue | TFalse | TNull

definition isJsonSpace :: "char \<Rightarrow> bool" where
  "isJsonSpace c = (c \<in> set [CHR 0x20, CHR 0x09, CHR 0x0A, CHR 0x0D])"

definition isControl :: "char \<Rightarrow> bool" where
  "isControl c = ((of_char c :: nat) < 32)"

definition escapeChar :: "char \<Rightarrow> char option" where
  "escapeChar e =
     map_of [(CHR 0x22, CHR 0x22), (CHR 0x5C, CHR 0x5C), (CHR ''/'', CHR ''/''),
             (CHR ''b'', CHR 0x08), (CHR ''f'', CHR 0x0C), (CHR ''n'', CHR 0x0A),
             (CHR ''r'', CHR 0x0D), (CHR ''t'', CHR 0x09)] e"

definition hexValue :: "char \<Rightarrow> nat option" where
  "hexValue c =
     map_of (zip ''0123456789abcdef'' [0 ..< 16] @ zip ''ABCDEF'' [10 ..< 16]) c"

text \<open>\<open>\uXXXX\<close>: the code unit, when it is below 256.\<close>

definition unicodeEscape :: "string \<Rightarrow> char option" where
  "unicodeEscape hs =
     (case map hexValue hs of
        [Some a, Some b, Some c, Some d] \<Rightarrow>
          if a = 0 \<and> b = 0 then Some (char_of (16 * c + d)) else None
      | _ \<Rightarrow> None)"

text \<open>
  A string literal after its opening quote: the decoded text and what follows the closing
  quote.
\<close>

fun stringBody :: "string \<Rightarrow> (string \<times> string) option" where
  "stringBody [] = None"
| "stringBody (c # cs) =
     (if c = CHR 0x22 then Some ([], cs)
      else if c = CHR 0x5C then
        (case cs of
           [] \<Rightarrow> None
         | e # cs' \<Rightarrow>
             if e = CHR ''u'' then
               (case unicodeEscape (take 4 cs') of
                  None \<Rightarrow> None
                | Some d \<Rightarrow>
                    (case stringBody (drop 4 cs') of
                       None \<Rightarrow> None
                     | Some (s, rest) \<Rightarrow> Some (d # s, rest)))
             else
               (case escapeChar e of
                  None \<Rightarrow> None
                | Some d \<Rightarrow>
                    (case stringBody cs' of
                       None \<Rightarrow> None
                     | Some (s, rest) \<Rightarrow> Some (d # s, rest))))
      else if isControl c then None
      else (case stringBody cs of
              None \<Rightarrow> None
            | Some (s, rest) \<Rightarrow> Some (c # s, rest)))"

lemma stringBody_length:
  "stringBody cs = Some (s, rest) \<Longrightarrow> length rest < length cs"
proof (induction cs arbitrary: s rule: stringBody.induct)
  case 1
  then show ?case by simp
next
  case (2 c cs)
  then show ?case
    by (auto split: if_splits list.splits option.splits) fastforce+
qed

definition emit :: "token \<Rightarrow> token list option \<Rightarrow> token list option" where
  "emit t r = (case r of None \<Rightarrow> None | Some ts \<Rightarrow> Some (t # ts))"

function tokenize :: "string \<Rightarrow> token list option" where
  "tokenize [] = Some []"
| "tokenize (c # cs) =
     (if isJsonSpace c then tokenize cs
      else if c = CHR ''{'' then emit TLBrace (tokenize cs)
      else if c = CHR ''}'' then emit TRBrace (tokenize cs)
      else if c = CHR ''['' then emit TLBracket (tokenize cs)
      else if c = CHR '']'' then emit TRBracket (tokenize cs)
      else if c = CHR '':'' then emit TColon (tokenize cs)
      else if c = CHR '','' then emit TComma (tokenize cs)
      else if c = CHR 0x22 then
        (case stringBody cs of
           None \<Rightarrow> None
         | Some (s, rest) \<Rightarrow> emit (TString s) (tokenize rest))
      else if c = CHR ''-'' \<or> isDigit c then
        (let ds = (if c = CHR ''-'' then [] else [c]) @ takeWhile isDigit cs in
         if ds = [] \<or> (1 < length ds \<and> hd ds = CHR ''0'')
            \<or> take 1 (dropWhile isDigit cs) \<in> {''.'', ''e'', ''E''}
         then None
         else emit (TNumber (if c = CHR ''-'' then - parseInt ds else parseInt ds))
                (tokenize (dropWhile isDigit cs)))
      else if take 4 (c # cs) = ''true'' then emit TTrue (tokenize (drop 3 cs))
      else if take 5 (c # cs) = ''false'' then emit TFalse (tokenize (drop 4 cs))
      else if take 4 (c # cs) = ''null'' then emit TNull (tokenize (drop 3 cs))
      else None)"
  by pat_completeness auto
termination
  by (relation "measure length")
     (auto simp add: less_Suc_eq_le length_dropWhile_le dest: stringBody_length)

datatype frame =
    FArr "js list"
  | FObj "(string \<times> js) list"
  | FKey "(string \<times> js) list" string

datatype expect =
    EValue | EValueOrEnd | EKeyOrEnd | EKey | EColon | ESep | EDone js

fun scalar :: "token \<Rightarrow> js option" where
  "scalar (TString s) = Some (JStr s)"
| "scalar (TNumber n) = Some (JNum n)"
| "scalar TTrue = Some (JBool True)"
| "scalar TFalse = Some (JBool False)"
| "scalar TNull = Some JNull"
| "scalar t = None"

text \<open>
  The token list is read in one pass with a stack of the arrays and objects that are open.
  A value that is complete is the result, the next element of the array being read, or
  the value of the pending key.
\<close>

fun complete :: "js \<Rightarrow> frame list \<Rightarrow> (expect \<times> frame list) option" where
  "complete v [] = Some (EDone v, [])"
| "complete v (FArr xs # st) = Some (ESep, FArr (xs @ [v]) # st)"
| "complete v (FKey ms k # st) = Some (ESep, FObj (ms @ [(k, v)]) # st)"
| "complete v (FObj ms # st) = None"

fun startValue :: "token \<Rightarrow> frame list \<Rightarrow> (expect \<times> frame list) option" where
  "startValue TLBracket st = Some (EValueOrEnd, FArr [] # st)"
| "startValue TLBrace st = Some (EKeyOrEnd, FObj [] # st)"
| "startValue t st = (case scalar t of None \<Rightarrow> None | Some v \<Rightarrow> complete v st)"

fun closeArray :: "frame list \<Rightarrow> (expect \<times> frame list) option" where
  "closeArray (FArr xs # st) = complete (JArr xs) st"
| "closeArray st = None"

fun closeObject :: "frame list \<Rightarrow> (expect \<times> frame list) option" where
  "closeObject (FObj ms # st) = complete (JObj ms) st"
| "closeObject st = None"

fun readKey :: "token \<Rightarrow> frame list \<Rightarrow> (expect \<times> frame list) option" where
  "readKey (TString k) (FObj ms # st) = Some (EColon, FKey ms k # st)"
| "readKey t st = None"

fun separator :: "token \<Rightarrow> frame list \<Rightarrow> (expect \<times> frame list) option" where
  "separator TComma (FArr xs # st) = Some (EValue, FArr xs # st)"
| "separator TComma (FObj ms # st) = Some (EKey, FObj ms # st)"
| "separator TRBracket st = closeArray st"
| "separator TRBrace st = closeObject st"
| "separator t st = None"

fun step :: "expect \<Rightarrow> frame list \<Rightarrow> token \<Rightarrow> (expect \<times> frame list) option" where
  "step EValue st t = startValue t st"
| "step EValueOrEnd st t = (if t = TRBracket then closeArray st else startValue t st)"
| "step EKeyOrEnd st t = (if t = TRBrace then closeObject st else readKey t st)"
| "step EKey st t = readKey t st"
| "step EColon st t = (if t = TColon then Some (EValue, st) else None)"
| "step ESep st t = separator t st"
| "step (EDone v) st t = None"

fun parseTokens :: "expect \<Rightarrow> frame list \<Rightarrow> token list \<Rightarrow> js option" where
  "parseTokens (EDone v) st [] = Some v"
| "parseTokens e st [] = None"
| "parseTokens e st (t # ts) =
     (case step e st t of None \<Rightarrow> None | Some (e', st') \<Rightarrow> parseTokens e' st' ts)"

definition JSON_parse :: "string \<Rightarrow> js option" where
  "JSON_parse s = (case tokenize s of None \<Rightarrow> None | Some ts \<Rightarrow> parseTokens EValue [] ts)"

section \<open>Responses of \<open>fetch\<close>\<close>

text \<open>
  What the network returns is an input of the model. \<open>fetch\<close> either rejects (\<open>None\<close>) or
  resolves to a response with its \<open>ok\<close> flag and status; \<open>json\<close> is the value that
  \<open>response.json()\<close> decodes, \<open>None\<close> when the body is not JSON and the promise rejects.
\<close>

record response =
  ok :: bool
  status :: nat
  json :: "js option"

definition fetchJson :: "response option \<Rightarrow> js_error + js" where
  "fetchJson r =
     (case r of
        None \<Rightarrow> Inl NetworkError
      | Some resp \<Rightarrow>
          if \<not> ok resp then Inl (HttpError (status resp))
          else (case json resp of None \<Rightarrow> Inl SyntaxError | Some v \<Rightarrow> Inr v))"

section \<open>The feed window and the feed requests\<close>

text \<open>
  \<open>subDays\<close> and \<open>format\<close> come from the date-fns library. \<open>today\<close> is the calendar date
  of \<open>new Date()\<close> in local time; \<open>subDays\<close> moves it by whole calendar days (it sets the
  day of the month and lets the date normalise), and the pattern \<open>yyyy-MM-dd\<close> prints the
  year of the era, the month and the day with leading zeros.
\<close>

record date =
  year :: int
  month :: nat
  day :: nat

definition isLeapYear :: "int \<Rightarrow> bool" where
  "isLeapYear y = (y mod 4 = 0 \<and> (y mod 100 \<noteq> 0 \<or> y mod 400 = 0))"

definition daysInMonth :: "int \<Rightarrow> nat \<Rightarrow> nat" where
  "daysInMonth y m =
     (if m = 2 then (if isLeapYear y then 29 else 28)
      else if m = 4 \<or> m = 6 \<or> m = 9 \<or> m = 11 then 30
      else 31)"

definition prevDay :: "date \<Rightarrow> date" where
  "prevDay d =
     (if 1 < day d then d\<lparr>day := day d - 1\<rparr>
      else if 1 < month d then d\<lparr>month := month d - 1, day := daysInMonth (year d) (month d - 1)\<rparr>
      else d\<lparr>year := year d - 1, month := 12, day := 31\<rparr>)"

definition nextDay :: "date \<Rightarrow> date" where
  "nextDay d =
     (if day d < daysInMonth (year d) (month d) then d\<lparr>day := day d + 1\<rparr>
      else if month d < 12 then d\<lparr>month := month d + 1, day := 1\<rparr>
      else d\<lparr>year := year d + 1, month := 1, day := 1\<rparr>)"

definition subDays :: "date \<Rightarrow> int \<Rightarrow> date" where
  "subDays d amount =
     (if 0 \<le> amount then (prevDay ^^ nat amount) d else (nextDay ^^ nat (- amount)) d)"

definition padStart :: "nat \<Rightarrow> string \<Rightarrow> string" where
  "padStart n s = replicate (n - length s) (CHR ''0'') @ s"

definition format_yyyy_MM_dd :: "date \<Rightarrow> string" where
  "format_yyyy_MM_dd d =
     padStart 4 (showNat (nat (if 0 < year d then year d else 1 - year d))) @ ''-'' @
     padStart 2 (showNat (month d)) @ ''-'' @ padStart 2 (showNat (day d))"

text \<open>The request of \<open>fetchFaithNews\<close>: its \<open>API_URL\<close>.\<close>

definition fetchFaithNews_API_URL ::
  "string \<Rightarrow> date \<Rightarrow> int \<Rightarrow> string list \<Rightarrow> string list \<Rightarrow> string" where
  "fetchFaithNews_API_URL apiKey today dateOffset selectedSources selectedCategories =
     (let to = format_yyyy_MM_dd (subDays today dateOffset);
          from = format_yyyy_MM_dd (subDays today (dateOffset + 1));
          sourceParams = joinWith ''&'' (map (\<lambda>source. ''source='' @ source) selectedSources);
          categoryParams =
            joinWith ''&'' (map (\<lambda>category. ''category='' @ category) selectedCategories)
      in ''https://api.goperigon.com/v1/all?apiKey='' @ apiKey @ ''&from='' @ from @
         ''&to='' @ to @ ''&showNumResults=true&size=18&sortBy=date&'' @ sourceParams @
         ''&'' @ categoryParams)"

text \<open>The request of \<open>fetchMainstreamNews\<close>: its \<open>API_URL\<close>.\<close>

definition fetchMainstreamNews_API_URL :: "string \<Rightarrow> date \<Rightarrow> int \<Rightarrow> string" where
  "fetchMainstreamNews_API_URL apiKey today dateOffset =
     (let to = format_yyyy_MM_dd (subDays today dateOffset);
          from = format_yyyy_MM_dd (subDays today (dateOffset + 1))
      in ''https://api.goperigon.com/v1/headlines?apiKey='' @ apiKey @ ''&from='' @ from @
         ''&to='' @ to @ ''&sourceGroup=top10&showNumResults=true&size=18&sortBy=date'')"

definition handleDateChange :: "string \<Rightarrow> int \<Rightarrow> int" where
  "handleDateChange direction dateOffset =
     (if direction = ''left'' then dateOffset + 1
      else if direction = ''right'' \<and> 0 < dateOffset then dateOffset - 1
      else dateOffset)"

section \<open>The feed: \<open>fetchFaithNews\<close> and \<open>fetchMainstreamNews\<close>\<close>

record feed =
  news :: js
  loading :: bool
  error :: "string option"

definition fetchFaithNews :: "response option \<Rightarrow> feed \<Rightarrow> feed" where
  "fetchFaithNews r s =
     (let s1 = s\<lparr>loading := True\<rparr> in
      case andThen (fetchJson r) (\<lambda>data. getProp data ''articles'') of
        Inr articles \<Rightarrow> s1\<lparr>news := articles, loading := False\<rparr>
      | Inl e \<Rightarrow> s1\<lparr>error := Some ''Failed to fetch news'', loading := False\<rparr>)"

text \<open>\<open>data.clusters.map(cluster => cluster.hits[0])\<close>\<close>

fun firstHits :: "js list \<Rightarrow> js_error + js list" where
  "firstHits [] = Inr []"
| "firstHits (cluster # rest) =
     andThen (getProp cluster ''hits'') (\<lambda>hits.
     andThen (getIndex hits 0) (\<lambda>hit.
     andThen (firstHits rest) (\<lambda>others. Inr (hit # others))))"

text \<open>The body of the \<open>try\<close> block once \<open>data\<close> is there: the value handed to \<open>setNews\<close>.\<close>

definition mainstreamArticles :: "js \<Rightarrow> js_error + js" where
  "mainstreamArticles data =
     andThen (getProp data ''clusters'') (\<lambda>clusters.
       if truthy clusters \<and> isArray clusters then
         (case clusters of
            JArr cs \<Rightarrow> andThen (firstHits cs) (\<lambda>hits. Inr (JArr (take 18 (filter truthy hits))))
          | _ \<Rightarrow> Inr (JArr []))
       else Inr (JArr []))"

definition fetchMainstreamNews :: "response option \<Rightarrow> feed \<Rightarrow> feed" where
  "fetchMainstreamNews r s =
     (let s1 = s\<lparr>loading := True\<rparr> in
      case andThen (fetchJson r) mainstreamArticles of
        Inr articles \<Rightarrow> s1\<lparr>news := articles, loading := False\<rparr>
      | Inl e \<Rightarrow> s1\<lparr>error := Some ''Failed to fetch news'', loading := False\<rparr>)"

section \<open>Source metadata: \<open>getBiasRating\<close>\<close>

text \<open>\<open>source?.k\<close>: \<open>undefined\<close> when \<open>source\<close> is \<open>undefined\<close> or \<open>null\<close>.\<close>

definition optChain :: "js \<Rightarrow> string \<Rightarrow> js" where
  "optChain v k = (case getProp v k of Inl e \<Rightarrow> JUndefined | Inr x \<Rightarrow> x)"

definition jsOr :: "js \<Rightarrow> js \<Rightarrow> js" where
  "jsOr a b = (if truthy a then a else b)"

definition getBiasRating :: "js \<Rightarrow> js" where
  "getBiasRating source =
     jsOr (optChain source ''mbfcBiasRating'')
       (jsOr (optChain source ''allSidesBiasRating'')
          (jsOr (optChain source ''adFontesBiasRating'') JNull))"

section \<open>Question generation: \<open>generateQuestion\<close>\<close>

definition prompt :: "string \<Rightarrow> string \<Rightarrow> string" where
  "prompt title body =
     ''There is a news article with the following content \"'' @ title @ ''\" \"'' @ body @
     ''\". generate a brief question to ask a search engine about this article''"

text \<open>\<open>data.choices[0].message.content.trim()\<close>\<close>

definition questionOf :: "js \<Rightarrow> js_error + string" where
  "questionOf data =
     andThen (getProp data ''choices'') (\<lambda>choices.
     andThen (getIndex choices 0) (\<lambda>choice.
     andThen (getProp choice ''message'') (\<lambda>message.
     andThen (getProp message ''content'') (\<lambda>content.
       case content of JStr s \<Rightarrow> Inr (trim s) | _ \<Rightarrow> Inl TypeError))))"

text \<open>
  The answer of the completion endpoint to the one request is the argument; the \<open>catch\<close>
  block turns every exception of the \<open>try\<close> block into the fixed text.
\<close>

definition generateQuestion :: "response option \<Rightarrow> string" where
  "generateQuestion r =
     (case andThen (fetchJson r) questionOf of
        Inr question \<Rightarrow> question
      | Inl e \<Rightarrow> ''Failed to generate question'')"

section \<open>The streamed answer: \<open>callPerigonAPI\<close>\<close>

record answer =
  content :: string
  citations :: "js list"

text \<open>
  The \<open>for\<close> loop over the lines of one chunk; \<open>parse\<close> is \<open>JSON.parse\<close>. The loop state
  is the text read so far and the citations collected so far.
\<close>

fun processLines ::
  "(string \<Rightarrow> js option) \<Rightarrow> string \<times> js list \<Rightarrow> string list \<Rightarrow> js_error + string \<times> js list"
where
  "processLines parse acc [] = Inr acc"
| "processLines parse (result, cits) (line # lines) =
     (case parse line of
        None \<Rightarrow> Inl SyntaxError
      | Some parsedLine \<Rightarrow>
          andThen (getProp parsedLine ''type'') (\<lambda>tag.
            if tag = JStr ''RESPONSE_CHUNK'' then
              andThen (getProp parsedLine ''content'') (\<lambda>c.
                andThen (toString c) (\<lambda>piece.
                  processLines parse (result @ piece, cits) lines))
            else if tag = JStr ''CITATION'' then
              processLines parse (result, cits @ [parsedLine]) lines
            else processLines parse (result, cits) lines))"

text \<open>\<open>chunk.split('\n').filter(line => line.trim() !== '')\<close>\<close>

definition linesOf :: "string \<Rightarrow> string list" where
  "linesOf chunk = filter (\<lambda>line. trim line \<noteq> []) (split (CHR 0x0A) chunk)"

text \<open>
  What \<open>reader.read()\<close> delivers, in order: decoded chunks, and possibly a failure of
  the transport. The end of the list is the end of the stream (\<open>done\<close>); a stream that
  never ends is not an input of this model.
\<close>

datatype read = Chunk string | ReadFails

fun readLoop ::
  "(string \<Rightarrow> js option) \<Rightarrow> string \<times> js list \<Rightarrow> read list \<Rightarrow> js_error + string \<times> js list"
where
  "readLoop parse acc [] = Inr acc"
| "readLoop parse acc (ReadFails # reads) = Inl NetworkError"
| "readLoop parse acc (Chunk chunk # reads) =
     andThen (processLines parse acc (linesOf chunk)) (\<lambda>acc'. readLoop parse acc' reads)"

record stream_response =
  stream_ok :: bool
  stream_status :: nat
  reads :: "read list"

definition failedAnswer :: answer where
  "failedAnswer = \<lparr>content = ''Failed to get response from Perigon API'', citations = []\<rparr>"

definition callPerigonAPI :: "(string \<Rightarrow> js option) \<Rightarrow> stream_response option \<Rightarrow> answer" where
  "callPerigonAPI parse r =
     (case (case r of
              None \<Rightarrow> Inl NetworkError
            | Some resp \<Rightarrow>
                if \<not> stream_ok resp then Inl (HttpError (stream_status resp))
                else readLoop parse ([], []) (reads resp)) of
        Inr (result, cits) \<Rightarrow> \<lparr>content = trim result, citations = cits\<rparr>
      | Inl e \<Rightarrow> failedAnswer)"

section \<open>The citation formatter: \<open>formatPerigonResponse\<close>\<close>

text \<open>
  A citation as the formatter reads it: the \<open>sequenceIndex\<close> (the value of the Number, an
  integer) and the \<open>url\<close> (a text, empty when the event carried none) of a \<open>CITATION\<close>
  event.
\<close>

record citation =
  sequenceIndex :: int
  url :: string

text \<open>
  Step 1, \<open>replace(/\*\*(.*?)\*\*/g, '<strong>$1</strong>')\<close>. After an opening \<open>**\<close>,
  \<open>findClose\<close> looks for the nearest closing \<open>**\<close> on the same line and returns the text
  in between and the text after it.
\<close>

fun findClose :: "string \<Rightarrow> (string \<times> string) option" where
  "findClose (a # b # cs) =
     (if a = CHR ''*'' \<and> b = CHR ''*'' then Some ([], cs)
      else if isLineTerminator a then None
      else (case findClose (b # cs) of
              None \<Rightarrow> None
            | Some (captured, rest) \<Rightarrow> Some (a # captured, rest)))"
| "findClose cs = None"

lemma findClose_shape:
  "findClose cs = Some (captured, rest) \<Longrightarrow>
     cs = captured @ ''**'' @ rest \<and> (\<forall>c \<in> set captured. \<not> isLineTerminator c)"
proof (induction cs arbitrary: captured rule: findClose.induct)
  case (1 a b cs)
  then show ?case
    by (auto split: if_splits option.splits)
qed simp_all

lemma findClose_length:
  "findClose cs = Some (captured, rest) \<Longrightarrow> length rest < length cs"
  by (drule findClose_shape) simp

function replaceBold :: "string \<Rightarrow> string" where
  "replaceBold (a # b # cs) =
     (if a = CHR ''*'' \<and> b = CHR ''*'' then
        (case findClose cs of
           Some (captured, rest) \<Rightarrow> ''<strong>'' @ captured @ ''</strong>'' @ replaceBold rest
         | None \<Rightarrow> a # replaceBold (b # cs))
      else a # replaceBold (b # cs))"
| "replaceBold [c] = [c]"
| "replaceBold [] = []"
  by pat_completeness auto
termination
  by (relation "measure length") (auto dest: findClose_length)

text \<open>Step 2. The \<open>forEach\<close> over the citations: a later citation overwrites an earlier one.\<close>

definition citationMap :: "citation list \<Rightarrow> (int \<rightharpoonup> string)" where
  "citationMap citationList =
     foldl (\<lambda>m citation. m(sequenceIndex citation \<mapsto> url citation)) Map.empty citationList"

text \<open>
  The callback of the second \<open>replace\<close>: \<open>p1\<close> is the digit text between the brackets.
  The key of the lookup and the label \<open>[${citationNumber}]\<close> are the decimal digits of
  \<open>citationNumber\<close>, which is how JavaScript prints a safe integer.
\<close>

definition citationLink :: "(int \<rightharpoonup> string) \<Rightarrow> string \<Rightarrow> string" where
  "citationLink m p1 =
     (let citationNumber = parseInt p1 in
      case m citationNumber of
        None \<Rightarrow> ''['' @ p1 @ '']''
      | Some u \<Rightarrow>
          if u \<noteq> [] then
            ''<a href=\"'' @ u @ ''\" target=\"_blank\" rel=\"noopener noreferrer\">['' @
              showInt citationNumber @ '']</a>''
          else ''['' @ p1 @ '']'')"

lemma length_dropWhile_pred:
  "length (dropWhile P cs) - Suc 0 \<le> length cs"
  using length_dropWhile_le [of P cs] by arith

text \<open>\<open>replace(/\[(\d+)\]/g, callback)\<close>\<close>

function replaceCitations :: "(int \<rightharpoonup> string) \<Rightarrow> string \<Rightarrow> string" where
  "replaceCitations m [] = []"
| "replaceCitations m (c # cs) =
     (if c = CHR ''['' \<and> takeWhile isDigit cs \<noteq> [] \<and>
         take 1 (dropWhile isDigit cs) = '']''
      then citationLink m (takeWhile isDigit cs) @
             replaceCitations m (drop 1 (dropWhile isDigit cs))
      else c # replaceCitations m cs)"
  by pat_completeness auto
termination
  by (relation "measure (\<lambda>(m, s). length s)")
     (auto simp add: less_Suc_eq_le length_dropWhile_pred)

text \<open>
  Step 3, \<open>replace(/^Perigon Response:\s*/i, '')\<close>: the letter case of ASCII letters is
  ignored.
\<close>

definition lowerAscii :: "char \<Rightarrow> char" where
  "lowerAscii c =
     (case map_of (zip ''ABCDEFGHIJKLMNOPQRSTUVWXYZ'' ''abcdefghijklmnopqrstuvwxyz'') c of
        None \<Rightarrow> c | Some l \<Rightarrow> l)"

definition hasPerigonPrefix :: "string \<Rightarrow> bool" where
  "hasPerigonPrefix s = (map lowerAscii (take 17 s) = ''perigon response:'')"

definition stripPrefix :: "string \<Rightarrow> string" where
  "stripPrefix s = (if hasPerigonPrefix s then dropWhile isSpace (drop 17 s) else s)"

text \<open>
  \<open>response\<close> is any value: a falsy one gives the empty text at once, a text goes through
  the three steps, and any other value has no \<open>replace\<close> method. The second parameter,
  \<open>citations\<close> in the source, is written \<open>citationList\<close>.
\<close>

definition formatPerigonResponse :: "js \<Rightarrow> citation list \<Rightarrow> js_error + string" where
  "formatPerigonResponse response citationList =
     (if \<not> truthy response then Inr []
      else (case response of
              JStr answerText \<Rightarrow>
                Inr (stripPrefix
                       (replaceCitations (citationMap citationList) (replaceBold answerText)))
            | _ \<Rightarrow> Inl TypeError))"

section \<open>Verification requests: \<open>handleCheckMainstream\<close>\<close>

text \<open>
  The component state that the handler reads and writes is \<open>perigonResponses\<close> and
  \<open>loadingResponses\<close>, both keyed by the article identifier (as a property key, that is,
  as the text the identifier converts to). \<open>handleCheckMainstream\<close> is
  asynchronous: it runs up to \<open>await generateQuestion(...)\<close>, later resumes with the
  generated question and runs up to \<open>await callPerigonAPI(...)\<close>, and later resumes with
  the answer. The model has one function for each of the three segments and keeps, per
  article identifier, the number of invocations suspended at each \<open>await\<close>
  (\<open>awaitingQuestion\<close>, \<open>awaitingAnswer\<close>) together with a log of the calls issued
  (\<open>questionCalls\<close>, \<open>streamCalls\<close>); these four fields record what happened and are never
  read by the program. Every segment sees the state of the latest render, and state
  updates are the functional ones of the source. The handler's third parameter is written
  \<open>body\<close> here (\<open>content\<close> in the source).
\<close>

text \<open>
  Both state objects start as the plain object \<open>{}\<close> of \<open>useState({})\<close>. Reading
  \<open>obj[key]\<close> answers with the member of that name of the object's own, and for a key that
  is no member of its own with the member of \<open>Object.prototype\<close> of that name, if there is
  one. \<open>Object.prototype\<close> has twelve members: eleven functions, and the accessor
  \<open>__proto__\<close>, which answers with \<open>Object.prototype\<close> itself, an object. All twelve
  values are truthy. The updates of the source, \<open>{ ...prev, [articleId]: v }\<close>, write
  members of the object's own, for these keys too (a computed key never sets the
  prototype). The fields \<open>perigonResponses\<close> and \<open>loadingResponses\<close> of the model hold the
  members of the objects' own.
\<close>

datatype inherited = InheritedFunction | InheritedObject

definition objectPrototype :: "string \<rightharpoonup> inherited" where
  "objectPrototype =
     map_of [(''constructor'', InheritedFunction),
             (''hasOwnProperty'', InheritedFunction),
             (''isPrototypeOf'', InheritedFunction),
             (''propertyIsEnumerable'', InheritedFunction),
             (''toLocaleString'', InheritedFunction),
             (''toString'', InheritedFunction),
             (''valueOf'', InheritedFunction),
             (''__defineGetter__'', InheritedFunction),
             (''__defineSetter__'', InheritedFunction),
             (''__lookupGetter__'', InheritedFunction),
             (''__lookupSetter__'', InheritedFunction),
             (''__proto__'', InheritedObject)]"

record app =
  perigonResponses :: "string \<rightharpoonup> answer"
  loadingResponses :: "string \<rightharpoonup> bool"
  awaitingQuestion :: "string \<Rightarrow> nat"
  awaitingAnswer :: "string \<Rightarrow> nat"
  questionCalls :: "(string \<times> string \<times> string) list"
  streamCalls :: "(string \<times> string) list"

definition initialApp :: app where
  "initialApp =
     \<lparr>perigonResponses = Map.empty, loadingResponses = Map.empty,
      awaitingQuestion = (\<lambda>k. 0), awaitingAnswer = (\<lambda>k. 0),
      questionCalls = [], streamCalls = []\<rparr>"

text \<open>
  Whether \<open>perigonResponses[articleId]\<close> is truthy: an answer of the object's own is an
  object and so truthy, and so is every inherited member.
\<close>

definition hasResponse :: "app \<Rightarrow> string \<Rightarrow> bool" where
  "hasResponse s articleId =
     (case perigonResponses s articleId of
        Some perigonResponse \<Rightarrow> True
      | None \<Rightarrow> objectPrototype articleId \<noteq> None)"

text \<open>
  The first segment: the guard \<open>!perigonResponses[articleId]\<close>, \<open>setLoadingResponses\<close>,
  and the call of \<open>generateQuestion(title, content)\<close>.
\<close>

definition handleCheckMainstream :: "string \<Rightarrow> string \<Rightarrow> string \<Rightarrow> app \<Rightarrow> app" where
  "handleCheckMainstream articleId title body s =
     (if \<not> hasResponse s articleId then
        s\<lparr>loadingResponses := (loadingResponses s)(articleId \<mapsto> True),
          questionCalls := questionCalls s @ [(articleId, title, body)],
          awaitingQuestion := (awaitingQuestion s)(articleId := Suc (awaitingQuestion s articleId))\<rparr>
      else s)"

text \<open>
  The second segment: \<open>generateQuestion\<close> has returned \<open>generated\<close>; the clause is appended
  and \<open>callPerigonAPI(question)\<close> is called.
\<close>

definition questionResolves :: "string \<Rightarrow> string \<Rightarrow> app \<Rightarrow> app" where
  "questionResolves articleId generated s =
     (if awaitingQuestion s articleId = 0 then s
      else
        (let question = generated @ '' in less than 200 words'' in
         s\<lparr>awaitingQuestion := (awaitingQuestion s)(articleId := awaitingQuestion s articleId - 1),
           awaitingAnswer := (awaitingAnswer s)(articleId := Suc (awaitingAnswer s articleId)),
           streamCalls := streamCalls s @ [(articleId, question)]\<rparr>))"

text \<open>The third segment: \<open>callPerigonAPI\<close> has returned \<open>perigonResponse\<close>.\<close>

definition answerResolves :: "string \<Rightarrow> answer \<Rightarrow> app \<Rightarrow> app" where
  "answerResolves articleId perigonResponse s =
     (if awaitingAnswer s articleId = 0 then s
      else
        s\<lparr>awaitingAnswer := (awaitingAnswer s)(articleId := awaitingAnswer s articleId - 1),
          perigonResponses := (perigonResponses s)(articleId \<mapsto> perigonResponse),
          loadingResponses := (loadingResponses s)(articleId \<mapsto> False)\<rparr>)"

text \<open>
  The button labelled Go Deeper of an article is the only place that calls the handler:
  \<open>onClick\<close> is the handler, and \<open>disabled\<close> is \<open>loadingResponses[article.articleId]\<close>. An
  own member is the boolean the handler wrote. For an inherited member React decides: it
  takes a function as no value for an attribute and leaves the button enabled, and takes
  any other truthy value as \<open>true\<close>. A click on a disabled button reaches no handler.
\<close>

definition isDisabled :: "app \<Rightarrow> string \<Rightarrow> bool" where
  "isDisabled s articleId =
     (case loadingResponses s articleId of
        Some busy \<Rightarrow> busy
      | None \<Rightarrow> objectPrototype articleId = Some InheritedObject)"

definition clickGoDeeper :: "string \<Rightarrow> string \<Rightarrow> string \<Rightarrow> app \<Rightarrow> app" where
  "clickGoDeeper articleId title body s =
     (if isDisabled s articleId then s
      else handleCheckMainstream articleId title body s)"

text \<open>
  What can happen to the component: a click on the button of an article, and the
  completion of an awaited call.
\<close>

datatype event =
    Click string string string
  | QuestionResolves string string
  | AnswerResolves string answer

fun applyEvent :: "app \<Rightarrow> event \<Rightarrow> app" where
  "applyEvent s (Click k title body) = clickGoDeeper k title body s"
| "applyEvent s (QuestionResolves k generated) = questionResolves k generated s"
| "applyEvent s (AnswerResolves k perigonResponse) = answerResolves k perigonResponse s"

definition run :: "event list \<Rightarrow> app \<Rightarrow> app" where
  "run es s = foldl applyEvent s es"

chapter \<open>Properties\<close>

section \<open>Vocabulary of the statements\<close>

text \<open>A well-formed cluster: its \<open>hits\<close> member is an array of article objects.\<close>

definition clusterWithHits :: "js \<Rightarrow> (string \<times> js) list list \<Rightarrow> bool" where
  "clusterWithHits cluster hs = (getProp cluster ''hits'' = Inr (JArr (map JObj hs)))"

text \<open>Calendar dates: validity, the order of the calendar, and the shape \<open>YYYY-MM-DD\<close>.\<close>

definition validDate :: "date \<Rightarrow> bool" where
  "validDate d =
     (1 \<le> month d \<and> month d \<le> 12 \<and> 1 \<le> day d \<and> day d \<le> daysInMonth (year d) (month d))"

definition dateLe :: "date \<Rightarrow> date \<Rightarrow> bool" where
  "dateLe a b =
     (year a < year b \<or>
      (year a = year b \<and> (month a < month b \<or> (month a = month b \<and> day a \<le> day b))))"

definition isIsoDate :: "string \<Rightarrow> bool" where
  "isIsoDate s =
     (length s = 10 \<and> s ! 4 = CHR ''-'' \<and> s ! 7 = CHR ''-'' \<and>
      list_all (\<lambda>i. isDigit (s ! i)) [0, 1, 2, 3, 5, 6, 8, 9])"

text \<open>The integers that a Number holds exactly, as \<open>Number.isSafeInteger\<close> has them.\<close>

definition isSafeInteger :: "int \<Rightarrow> bool" where
  "isSafeInteger n = (- 9007199254740991 \<le> n \<and> n \<le> 9007199254740991)"

text \<open>
  A bold marker is a piece \<open>**X**\<close> of one line; a bracket token is a piece \<open>[n]\<close> with
  \<open>n\<close> one or more digits. A text contains one when one of its contiguous pieces is one.
\<close>

definition isBoldMarker :: "string \<Rightarrow> bool" where
  "isBoldMarker w =
     (4 \<le> length w \<and> take 2 w = ''**'' \<and> drop (length w - 2) w = ''**'' \<and>
      list_all (\<lambda>c. \<not> isLineTerminator c) (take (length w - 4) (drop 2 w)))"

definition containsBoldMarker :: "string \<Rightarrow> bool" where
  "containsBoldMarker s = list_ex isBoldMarker (sublists s)"

definition isBracketToken :: "string \<Rightarrow> bool" where
  "isBracketToken w =
     (3 \<le> length w \<and> take 1 w = ''['' \<and> drop (length w - 1) w = '']'' \<and>
      list_all isDigit (take (length w - 2) (drop 1 w)))"

definition containsBracketToken :: "string \<Rightarrow> bool" where
  "containsBracketToken s = list_ex isBracketToken (sublists s)"





section \<open>C1: one verification request per article\<close>














section \<open>C2: normalisation of the mainstream feed\<close>

lemma firstHits_wellformed:
  "list_all2 clusterWithHits cs hss \<Longrightarrow>
   \<exists>hits. firstHits cs = Inr hits \<and>
     filter truthy hits = map (\<lambda>hs. JObj (hd hs)) (filter (\<lambda>hs. hs \<noteq> []) hss)"
proof (induction cs hss rule: list_all2_induct)
  case Nil
  then show ?case by simp
next
  case (Cons c cs hs hss)
  then obtain hits where h: "firstHits cs = Inr hits"
    "filter truthy hits = map (\<lambda>hs. JObj (hd hs)) (filter (\<lambda>hs. hs \<noteq> []) hss)"
    by blast
  from Cons.hyps(1) have g: "getProp c ''hits'' = Inr (JArr (map JObj hs))"
    by (simp add: clusterWithHits_def)
  show ?case
  proof (cases hs)
    case Nil
    with g h show ?thesis by (simp add: andThen_def)
  next
    case (Cons a as)
    with g h show ?thesis by (simp add: andThen_def)
  qed
qed

text \<open>
  C2. Mainstream normalisation: for a response whose \<open>clusters\<close> member is an array of
  well-formed clusters, the article list is the first hit of every cluster that has one,
  in cluster order, cut to its first 18 entries (so at most 18 articles); the feed-level
  error is left alone.
\<close>

theorem C2_mainstream_normalisation:
  assumes "ok resp" and "json resp = Some data"
    and "getProp data ''clusters'' = Inr (JArr cs)"
    and "list_all2 clusterWithHits cs hss"
  shows "news (fetchMainstreamNews (Some resp) s) =
           JArr (take 18 (map (\<lambda>hs. JObj (hd hs)) (filter (\<lambda>hs. hs \<noteq> []) hss)))
         \<and> error (fetchMainstreamNews (Some resp) s) = error s
         \<and> length (take 18 (map (\<lambda>hs. JObj (hd hs)) (filter (\<lambda>hs. hs \<noteq> []) hss))) \<le> 18"
proof -
  from assms(4) obtain hits where h: "firstHits cs = Inr hits"
    "filter truthy hits = map (\<lambda>hs. JObj (hd hs)) (filter (\<lambda>hs. hs \<noteq> []) hss)"
    using firstHits_wellformed by blast
  have "andThen (fetchJson (Some resp)) mainstreamArticles =
          Inr (JArr (take 18 (map (\<lambda>hs. JObj (hd hs)) (filter (\<lambda>hs. hs \<noteq> []) hss))))"
    using assms(1-3) h by (simp add: fetchJson_def mainstreamArticles_def andThen_def)
  then show ?thesis by (simp add: fetchMainstreamNews_def)
qed

text \<open>
  C2 on the clusters \<open>[{hits: [A, B]}, {hits: []}, {hits: [C]}]\<close>: the articles are
  \<open>[A, C]\<close>.
\<close>

theorem C2_mainstream_normalisation_witness:
  "news (fetchMainstreamNews
      (Some \<lparr>ok = True, status = 200, json = Some (JObj [(''clusters'', JArr
         [JObj [(''hits'', JArr [JObj [(''articleId'', JStr ''A'')], JObj [(''articleId'', JStr ''B'')]])],
          JObj [(''hits'', JArr [])],
          JObj [(''hits'', JArr [JObj [(''articleId'', JStr ''C'')]])]])])\<rparr>)
      \<lparr>news = JArr [], loading = True, error = None\<rparr>)
   = JArr [JObj [(''articleId'', JStr ''A'')], JObj [(''articleId'', JStr ''C'')]]"
  using C2_mainstream_normalisation
    [of "\<lparr>ok = True, status = 200, json = Some (JObj [(''clusters'', JArr
         [JObj [(''hits'', JArr [JObj [(''articleId'', JStr ''A'')], JObj [(''articleId'', JStr ''B'')]])],
          JObj [(''hits'', JArr [])],
          JObj [(''hits'', JArr [JObj [(''articleId'', JStr ''C'')]])]])])\<rparr>"
        "JObj [(''clusters'', JArr
         [JObj [(''hits'', JArr [JObj [(''articleId'', JStr ''A'')], JObj [(''articleId'', JStr ''B'')]])],
          JObj [(''hits'', JArr [])],
          JObj [(''hits'', JArr [JObj [(''articleId'', JStr ''C'')]])]])]"
        "[JObj [(''hits'', JArr [JObj [(''articleId'', JStr ''A'')], JObj [(''articleId'', JStr ''B'')]])],
          JObj [(''hits'', JArr [])],
          JObj [(''hits'', JArr [JObj [(''articleId'', JStr ''C'')]])]]"
        "[[[(''articleId'', JStr ''A'')], [(''articleId'', JStr ''B'')]], [], [[(''articleId'', JStr ''C'')]]]"
        "\<lparr>news = JArr [], loading = True, error = None\<rparr>"]
  by (simp add: clusterWithHits_def member_of_def)

text \<open>
  Twenty-five clusters of one hit each: the first 18 articles are kept, in their order.
\<close>

lemma mainstream_truncation_25:
  "news (fetchMainstreamNews
      (Some \<lparr>ok = True, status = 200, json = Some (JObj [(''clusters'', JArr
         (map (\<lambda>i. JObj [(''hits'', JArr [JObj [(''articleId'', JNum (int i))]])]) [0..<25]))])\<rparr>) s)
   = JArr (map (\<lambda>i. JObj [(''articleId'', JNum (int i))]) [0..<18])"
proof -
  have wf: "list_all2 clusterWithHits
      (map (\<lambda>i. JObj [(''hits'', JArr [JObj [(''articleId'', JNum (int i))]])]) [0..<25])
      (map (\<lambda>i. [[(''articleId'', JNum (int i))]]) [0..<25])"
    by (simp add: list_all2_map1 list_all2_map2 list_all2_same clusterWithHits_def member_of_def)
  have "news (fetchMainstreamNews
      (Some \<lparr>ok = True, status = 200, json = Some (JObj [(''clusters'', JArr
         (map (\<lambda>i. JObj [(''hits'', JArr [JObj [(''articleId'', JNum (int i))]])]) [0..<25]))])\<rparr>) s)
    = JArr (take 18 (map (\<lambda>hs. JObj (hd hs))
        (filter (\<lambda>hs. hs \<noteq> []) (map (\<lambda>i. [[(''articleId'', JNum (int i))]]) [0..<25]))))"
    using firstHits_wellformed [OF wf]
    by (auto simp add: fetchMainstreamNews_def fetchJson_def mainstreamArticles_def
        andThen_def member_of_def)
  also have "\<dots> = JArr (map (\<lambda>i. JObj [(''articleId'', JNum (int i))]) [0..<18])"
    by (simp add: filter_map comp_def take_map)
  finally show ?thesis .
qed

section \<open>C3: citation links\<close>

lemma citationMap_snoc:
  "citationMap (cs @ [c]) = (citationMap cs)(sequenceIndex c \<mapsto> url c)"
  by (simp add: citationMap_def)

lemma citationMap_last_wins:
  "citationMap cs k =
     (if filter (\<lambda>c. sequenceIndex c = k) cs = [] then None
      else Some (url (last (filter (\<lambda>c. sequenceIndex c = k) cs))))"
proof (induction cs rule: rev_induct)
  case Nil
  show ?case by (simp add: citationMap_def)
next
  case (snoc c cs)
  then show ?case by (simp add: citationMap_snoc)
qed

lemma replaceCitations_token:
  assumes "ds \<noteq> []" and "\<forall>c \<in> set ds. isDigit c"
  shows "replaceCitations m (CHR ''['' # ds @ CHR '']'' # post) =
           citationLink m ds @ replaceCitations m post"
proof -
  have nd: "\<not> isDigit (CHR '']'')" by (simp add: isDigit_def)
  have t: "takeWhile isDigit (ds @ CHR '']'' # post) = ds"
    using assms(2) nd by simp
  have d: "dropWhile isDigit (ds @ CHR '']'' # post) = CHR '']'' # post"
    using assms(2) nd by simp
  show ?thesis using assms(1) by (simp add: t d)
qed

lemma replaceCitations_split:
  assumes tw: "takeWhile isDigit r = []" and dw: "dropWhile isDigit r = r"
    and hd: "take 1 r \<noteq> '']''" and ne: "r \<noteq> []"
  shows "replaceCitations m (pre @ r) = replaceCitations m pre @ replaceCitations m r"
proof (induction m pre rule: replaceCitations.induct)
  case (1 m)
  show ?case by simp
next
  case (2 m c cs)
  show ?case
  proof (cases "\<forall>x \<in> set cs. isDigit x")
    case True
    then have a: "takeWhile isDigit (cs @ r) = cs" "dropWhile isDigit (cs @ r) = r"
      and b: "takeWhile isDigit cs = cs" "dropWhile isDigit cs = []"
      using tw dw by simp_all
    have "replaceCitations m (c # cs @ r) = c # replaceCitations m (cs @ r)"
      using hd by (simp add: a)
    moreover have "replaceCitations m (c # cs) = c # replaceCitations m cs"
      by (simp add: b)
    moreover have "replaceCitations m (cs @ r) = replaceCitations m cs @ replaceCitations m r"
      using "2.IH"(2) by (simp add: b)
    ultimately show ?thesis by simp
  next
    case False
    then have t: "takeWhile isDigit (cs @ r) = takeWhile isDigit cs"
      and d: "dropWhile isDigit (cs @ r) = dropWhile isDigit cs @ r"
      and n: "dropWhile isDigit cs \<noteq> []"
      by auto
    from n obtain x xs where x: "dropWhile isDigit cs = x # xs"
      by (cases "dropWhile isDigit cs") auto
    show ?thesis
    proof (cases "c = CHR ''['' \<and> takeWhile isDigit cs \<noteq> [] \<and>
         take 1 (dropWhile isDigit cs) = '']''")
      case True
      then have "replaceCitations m (c # cs @ r) =
          citationLink m (takeWhile isDigit cs) @ replaceCitations m (xs @ r)"
        using t d x by simp
      moreover have "replaceCitations m (c # cs) =
          citationLink m (takeWhile isDigit cs) @ replaceCitations m xs"
        using True x by simp
      moreover have "replaceCitations m (xs @ r) = replaceCitations m xs @ replaceCitations m r"
        using "2.IH"(1) True x by simp
      ultimately show ?thesis by simp
    next
      case False
      then have "replaceCitations m (c # cs @ r) = c # replaceCitations m (cs @ r)"
        using t d x by auto
      moreover have "replaceCitations m (c # cs) = c # replaceCitations m cs"
        using False x by auto
      moreover have "replaceCitations m (cs @ r) = replaceCitations m cs @ replaceCitations m r"
        using "2.IH"(2) False by simp
      ultimately show ?thesis by simp
    qed
  qed
qed

lemma replaceCitations_in_context:
  assumes "ds \<noteq> []" and "\<forall>c \<in> set ds. isDigit c"
  shows "replaceCitations m (pre @ CHR ''['' # ds @ CHR '']'' # post) =
           replaceCitations m pre @ citationLink m ds @ replaceCitations m post"
proof -
  have nd: "\<not> isDigit (CHR ''['')" by (simp add: isDigit_def)
  have "replaceCitations m (pre @ (CHR ''['' # ds @ CHR '']'' # post)) =
          replaceCitations m pre @ replaceCitations m (CHR ''['' # ds @ CHR '']'' # post)"
    by (rule replaceCitations_split) (simp_all add: nd)
  then show ?thesis using replaceCitations_token [OF assms] by simp
qed

lemma containsBoldMarker_iff:
  "containsBoldMarker s \<longleftrightarrow> (\<exists>w. sublist w s \<and> isBoldMarker w)"
  by (auto simp add: containsBoldMarker_def list_ex_iff)

lemma containsBracketToken_iff:
  "containsBracketToken s \<longleftrightarrow> (\<exists>w. sublist w s \<and> isBracketToken w)"
  by (auto simp add: containsBracketToken_def list_ex_iff)

lemma isBoldMarker_span:
  "\<forall>c \<in> set x. \<not> isLineTerminator c \<Longrightarrow> isBoldMarker (''**'' @ x @ ''**'')"
  by (simp add: isBoldMarker_def list_all_iff)

lemma isBracketToken_span:
  "ds \<noteq> [] \<Longrightarrow> \<forall>c \<in> set ds. isDigit c \<Longrightarrow> isBracketToken (CHR ''['' # ds @ '']'')"
  by (cases ds) (simp_all add: isBracketToken_def list_all_iff)

lemma replaceBold_no_marker:
  "\<not> containsBoldMarker s \<Longrightarrow> replaceBold s = s"
proof (induction s rule: replaceBold.induct)
  case (1 a b cs)
  have tail: "\<not> containsBoldMarker (b # cs)"
    using "1.prems" by (auto simp add: containsBoldMarker_iff sublist_Cons_right)
  show ?case
  proof (cases "a = CHR ''*'' \<and> b = CHR ''*''")
    case True
    show ?thesis
    proof (cases "findClose cs")
      case None
      with True tail "1.IH"(1) show ?thesis by simp
    next
      case (Some p)
      obtain captured rest where p: "p = (captured, rest)" by (cases p)
      from Some p have sh: "cs = captured @ ''**'' @ rest"
        "\<forall>c \<in> set captured. \<not> isLineTerminator c"
        using findClose_shape by blast+
      have "prefix (''**'' @ captured @ ''**'') (a # b # cs)"
        using True sh(1) by (simp add: prefix_def)
      then have "sublist (''**'' @ captured @ ''**'') (a # b # cs)"
        by (rule prefix_imp_sublist)
      with isBoldMarker_span [OF sh(2)] "1.prems" show ?thesis
        by (auto simp add: containsBoldMarker_iff)
    qed
  next
    case False
    with tail "1.IH"(3) show ?thesis by auto
  qed
qed simp_all

lemma replaceCitations_no_token:
  "\<not> containsBracketToken s \<Longrightarrow> replaceCitations m s = s"
proof (induction m s rule: replaceCitations.induct)
  case (1 m)
  then show ?case by simp
next
  case (2 m c cs)
  have tail: "\<not> containsBracketToken cs"
    using "2.prems" by (auto simp add: containsBracketToken_iff sublist_Cons_right)
  show ?case
  proof (cases "c = CHR ''['' \<and> takeWhile isDigit cs \<noteq> [] \<and>
         take 1 (dropWhile isDigit cs) = '']''")
    case True
    then obtain rest where r: "dropWhile isDigit cs = CHR '']'' # rest"
      by (cases "dropWhile isDigit cs") auto
    have "cs = takeWhile isDigit cs @ CHR '']'' # rest"
      using takeWhile_dropWhile_id [of isDigit cs] r by simp
    then have "prefix (CHR ''['' # takeWhile isDigit cs @ '']'') (c # cs)"
      using True by (simp add: prefix_def) metis
    then have "sublist (CHR ''['' # takeWhile isDigit cs @ '']'') (c # cs)"
      by (rule prefix_imp_sublist)
    moreover have "isBracketToken (CHR ''['' # takeWhile isDigit cs @ '']'')"
      using True by (intro isBracketToken_span) (auto dest: set_takeWhileD)
    ultimately show ?thesis
      using "2.prems" by (auto simp add: containsBracketToken_iff)
  next
    case False
    with tail "2.IH"(2) show ?thesis by auto
  qed
qed

lemma no_star_no_bold_marker:
  "CHR ''*'' \<notin> set s \<Longrightarrow> \<not> containsBoldMarker s"
proof
  assume a: "CHR ''*'' \<notin> set s" and "containsBoldMarker s"
  then obtain w where w: "sublist w s" "isBoldMarker w"
    by (auto simp add: containsBoldMarker_iff)
  from w(2) obtain rest where "w = CHR ''*'' # rest"
    by (cases w) (auto simp add: isBoldMarker_def)
  with w(1) have "CHR ''*'' \<in> set s"
    using set_mono_sublist by fastforce
  with a show False by simp
qed

lemma no_bracket_no_token:
  "CHR ''['' \<notin> set s \<Longrightarrow> \<not> containsBracketToken s"
proof
  assume a: "CHR ''['' \<notin> set s" and "containsBracketToken s"
  then obtain w where w: "sublist w s" "isBracketToken w"
    by (auto simp add: containsBracketToken_iff)
  from w(2) obtain rest where "w = CHR ''['' # rest"
    by (cases w) (auto simp add: isBracketToken_def)
  with w(1) have "CHR ''['' \<in> set s"
    using set_mono_sublist by fastforce
  with a show False by simp
qed

text \<open>
  C3, as stated, fails: a token whose citation exists is not always replaced by a
  hyperlink. The callback tests the looked-up URL (\<open>if (url)\<close>), so when the citation that
  wins the lookup has an empty URL the token is left as it is. And the label is the number
  read from the token, not the token's digits: \<open>[01]\<close> is labelled \<open>[1]\<close>.
\<close>

theorem C3_empty_url_counterexample:
  "formatPerigonResponse (JStr ''See [1]'') [\<lparr>sequenceIndex = 1, url = ''''\<rparr>] = Inr ''See [1]''
   \<and> formatPerigonResponse (JStr ''See [01]'') [\<lparr>sequenceIndex = 1, url = ''https://a''\<rparr>]
       = Inr ''See <a href=\"https://a\" target=\"_blank\" rel=\"noopener noreferrer\">[1]</a>''"
  by code_simp

text \<open>
  C3, amended: wherever a bracket token \<open>[n]\<close> (\<open>n\<close> one or more digits that write a safe
  integer, at most \<open>2 ^ 53 - 1\<close>) stands in the text that reaches the second step, the
  step replaces it and works on the text before it and the text after it independently.
  The token becomes a hyperlink to the URL of the last citation in list order whose
  \<open>sequenceIndex\<close> is the number \<open>n\<close>, labelled with that number in brackets, when there
  is such a citation and its URL is not empty; otherwise the token is left unchanged.
  \<open>formatPerigonResponse\<close> applies this step to what the first step makes of the answer
  text, and then removes a leading label.
\<close>

theorem C3_citation_links:
  assumes "ds \<noteq> []" and "\<forall>c \<in> set ds. isDigit c" and "isSafeInteger (parseInt ds)"
  shows
    "let hits = filter (\<lambda>c. sequenceIndex c = parseInt ds) citationList;
         m = citationMap citationList;
         token = ''['' @ ds @ '']'';
         out = (if hits \<noteq> [] \<and> url (last hits) \<noteq> []
                then ''<a href=\"'' @ url (last hits) @
                     ''\" target=\"_blank\" rel=\"noopener noreferrer\">['' @
                     showInt (parseInt ds) @ '']</a>''
                else token)
     in replaceCitations m (pre @ token @ post) =
          replaceCitations m pre @ out @ replaceCitations m post
        \<and> (replaceBold answerText = pre @ token @ post \<longrightarrow>
             formatPerigonResponse (JStr answerText) citationList =
               Inr (stripPrefix (replaceCitations m pre @ out @ replaceCitations m post)))"
proof -
  let ?m = "citationMap citationList"
  let ?hits = "filter (\<lambda>c. sequenceIndex c = parseInt ds) citationList"
  let ?out = "if ?hits \<noteq> [] \<and> url (last ?hits) \<noteq> []
                then ''<a href=\"'' @ url (last ?hits) @
                     ''\" target=\"_blank\" rel=\"noopener noreferrer\">['' @
                     showInt (parseInt ds) @ '']</a>''
                else ''['' @ ds @ '']''"
  have link: "citationLink ?m ds = ?out"
    by (simp add: citationLink_def Let_def citationMap_last_wins [of citationList "parseInt ds"])
  have step: "replaceCitations ?m (pre @ ''['' @ ds @ '']'' @ post) =
      replaceCitations ?m pre @ ?out @ replaceCitations ?m post"
    using replaceCitations_in_context [OF assms(1,2), of ?m pre post] link by simp
  have "formatPerigonResponse (JStr answerText) citationList =
      Inr (stripPrefix (replaceCitations ?m pre @ ?out @ replaceCitations ?m post))"
    if b: "replaceBold answerText = pre @ ''['' @ ds @ '']'' @ post"
  proof -
    have "answerText \<noteq> []" using b by auto
    then have "formatPerigonResponse (JStr answerText) citationList =
        Inr (stripPrefix (replaceCitations ?m (replaceBold answerText)))"
      by (simp add: formatPerigonResponse_def)
    then show ?thesis using step b by simp
  qed
  with step show ?thesis by (simp add: Let_def)
qed

text \<open>
  C3 on \<open>See [1] and [2]\<close> with two citations of index 1: the later URL is linked, and
  \<open>[2]\<close> stays literal text.
\<close>

theorem C3_citation_links_witness:
  "formatPerigonResponse (JStr ''See [1] and [2]'')
     [\<lparr>sequenceIndex = 1, url = ''https://old''\<rparr>, \<lparr>sequenceIndex = 1, url = ''https://a''\<rparr>]
   = Inr ''See <a href=\"https://a\" target=\"_blank\" rel=\"noopener noreferrer\">[1]</a> and [2]''"
proof -
  let ?cs = "[\<lparr>sequenceIndex = 1, url = ''https://old''\<rparr>, \<lparr>sequenceIndex = 1, url = ''https://a''\<rparr>]"
  have d: "''1'' \<noteq> []" "\<forall>c \<in> set ''1''. isDigit c" "isSafeInteger (parseInt ''1'')"
    by (simp_all add: isDigit_def isSafeInteger_def parseInt_def digitValue_def)
  have e: "''See '' @ (''['' @ ''1'' @ '']'') @ '' and [2]'' = ''See [1] and [2]''"
    by simp
  have "\<not> containsBoldMarker ''See [1] and [2]''"
    by (rule no_star_no_bold_marker) simp
  then have "replaceBold ''See [1] and [2]'' = ''See [1] and [2]''"
    by (rule replaceBold_no_marker)
  then have nb: "replaceBold ''See [1] and [2]'' = ''See '' @ (''['' @ ''1'' @ '']'') @ '' and [2]''"
    unfolding e .
  have w: "formatPerigonResponse (JStr ''See [1] and [2]'') ?cs =
      Inr (stripPrefix (replaceCitations (citationMap ?cs) ''See '' @
        (if filter (\<lambda>c. sequenceIndex c = parseInt ''1'') ?cs \<noteq> [] \<and>
            url (last (filter (\<lambda>c. sequenceIndex c = parseInt ''1'') ?cs)) \<noteq> []
         then ''<a href=\"'' @ url (last (filter (\<lambda>c. sequenceIndex c = parseInt ''1'') ?cs)) @
              ''\" target=\"_blank\" rel=\"noopener noreferrer\">['' @
              showInt (parseInt ''1'') @ '']</a>''
         else ''['' @ ''1'' @ '']'') @
        replaceCitations (citationMap ?cs) '' and [2]''))"
    (is "_ = Inr ?R")
    using C3_citation_links [OF d, of ?cs "''See ''" "'' and [2]''" "''See [1] and [2]''"] nb
    unfolding Let_def by blast
  have r: "?R = ''See <a href=\"https://a\" target=\"_blank\" rel=\"noopener noreferrer\">[1]</a> and [2]''"
    by code_simp
  show ?thesis using w unfolding r .
qed

section \<open>C4: frames of the streamed answer\<close>

lemma split_not_Nil: "split sep s \<noteq> []"
  by (induction s) (auto split: list.splits)

lemma split_trailing_separator: "split sep (s @ [sep]) = split sep s @ [[]]"
proof (induction s)
  case Nil
  show ?case by simp
next
  case (Cons c s)
  obtain l ls where "split sep s = l # ls"
    using split_not_Nil [of sep s] by (cases "split sep s") auto
  with Cons show ?case by simp
qed

lemma split_no_separator: "sep \<notin> set s \<Longrightarrow> split sep s = [s]"
  by (induction s) auto

lemma linesOf_trailing_newline: "linesOf (chunk @ [CHR 0x0A]) = linesOf chunk"
  by (simp add: linesOf_def split_trailing_separator trim_def)

lemma readLoop_append:
  "readLoop parse acc (rs @ rs') =
     andThen (readLoop parse acc rs) (\<lambda>acc'. readLoop parse acc' rs')"
proof (induction parse acc rs rule: readLoop.induct)
  case (1 parse acc)
  show ?case by (simp add: andThen_def)
next
  case (2 parse acc reads)
  show ?case by (simp add: andThen_def)
next
  case (3 parse acc chunk reads)
  then show ?case
    by (cases "processLines parse acc (linesOf chunk)") (simp_all add: andThen_def)
qed

lemma processLines_unparseable:
  "l \<in> set ls \<Longrightarrow> parse l = None \<Longrightarrow> \<exists>e. processLines parse acc ls = Inl e"
proof (induction parse acc ls rule: processLines.induct)
  case (1 parse acc)
  then show ?case by simp
next
  case (2 parse result cits line lines)
  show ?case
  proof (cases "parse line")
    case None
    then show ?thesis by simp
  next
    case (Some parsedLine)
    with "2.prems" have mem: "l \<in> set lines" by auto
    have chunk: "\<exists>e. processLines parse (result @ piece, cits) lines = Inl e" for piece
      using "2.IH"(1) [of parsedLine "JStr ''RESPONSE_CHUNK''" piece] Some mem "2.prems"(2)
      by simp
    have cit: "\<exists>e. processLines parse (result, cits @ [parsedLine]) lines = Inl e"
      using "2.IH"(2) [of parsedLine "JStr ''CITATION''"] Some mem "2.prems"(2)
      by simp
    have other: "\<exists>e. processLines parse (result, cits) lines = Inl e"
      using "2.IH"(3) [of parsedLine JNull] Some mem "2.prems"(2)
      by simp
    show ?thesis
      using Some chunk cit other by (auto simp add: andThen_def split: sum.splits)
  qed
qed

lemma readLoop_unparseable:
  "Chunk chunk \<in> set rs \<Longrightarrow> l \<in> set (linesOf chunk) \<Longrightarrow> parse l = None \<Longrightarrow>
     \<exists>e. readLoop parse acc rs = Inl e"
proof (induction parse acc rs rule: readLoop.induct)
  case (1 parse acc)
  then show ?case by simp
next
  case (2 parse acc reads)
  show ?case by simp
next
  case (3 parse acc c reads)
  show ?case
  proof (cases "processLines parse acc (linesOf c)")
    case (Inl e)
    then show ?thesis by (simp add: andThen_def)
  next
    case (Inr acc')
    have "chunk \<noteq> c"
      using Inr processLines_unparseable [of l "linesOf chunk" parse acc] "3.prems"(2,3)
      by auto
    with "3.prems" have "Chunk chunk \<in> set reads" by simp
    then have "\<exists>e. readLoop parse acc' reads = Inl e"
      using "3.IH" Inr "3.prems"(2,3) by simp
    with Inr show ?thesis by (simp add: andThen_def)
  qed
qed

lemma processLines_other_tag:
  "parse l = Some v \<Longrightarrow> getProp v ''type'' = Inr tag \<Longrightarrow>
   tag \<noteq> JStr ''RESPONSE_CHUNK'' \<Longrightarrow> tag \<noteq> JStr ''CITATION'' \<Longrightarrow>
     processLines parse acc (l # ls) = processLines parse acc ls"
  by (cases acc) (simp add: andThen_def)

lemma readLoop_other_tag:
  assumes "CHR 0x0A \<notin> set l" and "parse l = Some v" and "getProp v ''type'' = Inr tag"
    and "tag \<noteq> JStr ''RESPONSE_CHUNK''" and "tag \<noteq> JStr ''CITATION''"
  shows "readLoop parse acc (Chunk l # rs) = readLoop parse acc rs"
proof (cases "trim l = []")
  case True
  then show ?thesis
    using assms(1) by (simp add: linesOf_def split_no_separator andThen_def)
next
  case False
  then have "linesOf l = [l]"
    using assms(1) by (simp add: linesOf_def split_no_separator)
  then show ?thesis
    using processLines_other_tag [of parse l v tag acc "[]"] assms(2-5)
    by (cases acc) (simp add: andThen_def)
qed

lemma frame_parses:
  "JSON_parse ''{\"type\":\"RESPONSE_CHUNK\",\"content\":\"Hi\"}''
     = Some (JObj [(''type'', JStr ''RESPONSE_CHUNK''), (''content'', JStr ''Hi'')])"
  by code_simp

lemma ping_parses:
  "JSON_parse ''{\"type\":\"PING\"}'' = Some (JObj [(''type'', JStr ''PING'')])"
  by code_simp

lemma fragment_fails: "JSON_parse ''{\"type\":\"RESPO'' = None"
  by code_simp

text \<open>
  C4, as stated, fails: an incomplete trailing fragment is not discarded. \<open>JSON.parse\<close>
  throws on it, the \<open>catch\<close> block takes over, and the whole answer, with the text already
  read, is replaced by the fixed failure result.
\<close>

theorem C4_truncated_frame_counterexample:
  "callPerigonAPI JSON_parse
     (Some \<lparr>stream_ok = True, stream_status = 200, reads =
        [Chunk ''{\"type\":\"RESPONSE_CHUNK\",\"content\":\"Hi\"}\<newline>{\"type\":\"RESPO'']\<rparr>)
   = \<lparr>content = ''Failed to get response from Perigon API'', citations = []\<rparr>"
  by code_simp

text \<open>
  C4, amended. (1) A final frame without a trailing newline is read exactly as with one.
  (2) When any non-blank line of any chunk is not decodable, \<open>callPerigonAPI\<close> returns the
  failure result (the text \<open>Failed to get response from Perigon API\<close> and no citations).
  (3) A frame whose type tag is neither \<open>RESPONSE_CHUNK\<close> nor \<open>CITATION\<close> changes
  nothing: the loop over the lines goes on with the text and the citations as they were,
  and a chunk that holds only this frame can be left out of the stream.
\<close>

theorem C4_stream_frames:
  "callPerigonAPI parse (Some \<lparr>stream_ok = True, stream_status = st, reads = rs @ [Chunk chunk]\<rparr>)
     = callPerigonAPI parse
         (Some \<lparr>stream_ok = True, stream_status = st, reads = rs @ [Chunk (chunk @ [CHR 0x0A])]\<rparr>)
   \<and> (Chunk chunk \<in> set (reads resp) \<and> l \<in> set (split (CHR 0x0A) chunk) \<and> trim l \<noteq> []
        \<and> parse l = None \<longrightarrow>
      callPerigonAPI parse (Some resp) = failedAnswer)
   \<and> (parse l' = Some v \<and> getProp v ''type'' = Inr tag
        \<and> tag \<noteq> JStr ''RESPONSE_CHUNK'' \<and> tag \<noteq> JStr ''CITATION'' \<longrightarrow>
      processLines parse acc (l' # ls) = processLines parse acc ls
      \<and> (CHR 0x0A \<notin> set l' \<longrightarrow>
          callPerigonAPI parse
              (Some \<lparr>stream_ok = True, stream_status = st, reads = rs @ Chunk l' # rs'\<rparr>)
            = callPerigonAPI parse
              (Some \<lparr>stream_ok = True, stream_status = st, reads = rs @ rs'\<rparr>)))"
proof (intro conjI impI)
  show "callPerigonAPI parse (Some \<lparr>stream_ok = True, stream_status = st, reads = rs @ [Chunk chunk]\<rparr>)
     = callPerigonAPI parse
         (Some \<lparr>stream_ok = True, stream_status = st, reads = rs @ [Chunk (chunk @ [CHR 0x0A])]\<rparr>)"
    by (simp add: callPerigonAPI_def readLoop_append linesOf_trailing_newline)
next
  assume a: "Chunk chunk \<in> set (reads resp) \<and> l \<in> set (split (CHR 0x0A) chunk) \<and> trim l \<noteq> []
        \<and> parse l = None"
  then have "l \<in> set (linesOf chunk)" by (simp add: linesOf_def)
  then have "\<exists>e. readLoop parse ([], []) (reads resp) = Inl e"
    using a readLoop_unparseable [of chunk "reads resp" l parse "([], [])"] by simp
  then show "callPerigonAPI parse (Some resp) = failedAnswer"
    by (auto simp add: callPerigonAPI_def)
next
  assume a: "parse l' = Some v \<and> getProp v ''type'' = Inr tag
        \<and> tag \<noteq> JStr ''RESPONSE_CHUNK'' \<and> tag \<noteq> JStr ''CITATION''"
  then show "processLines parse acc (l' # ls) = processLines parse acc ls"
    using processLines_other_tag [of parse l' v tag acc ls] by simp
next
  assume a: "parse l' = Some v \<and> getProp v ''type'' = Inr tag
        \<and> tag \<noteq> JStr ''RESPONSE_CHUNK'' \<and> tag \<noteq> JStr ''CITATION''"
    and n: "CHR 0x0A \<notin> set l'"
  have "readLoop parse acc' (Chunk l' # rs') = readLoop parse acc' rs'" for acc'
    using a n readLoop_other_tag [of l' parse v tag acc' rs'] by simp
  then have "readLoop parse ([], []) (rs @ Chunk l' # rs') = readLoop parse ([], []) (rs @ rs')"
    by (simp add: readLoop_append)
  then show "callPerigonAPI parse
          (Some \<lparr>stream_ok = True, stream_status = st, reads = rs @ Chunk l' # rs'\<rparr>)
        = callPerigonAPI parse
          (Some \<lparr>stream_ok = True, stream_status = st, reads = rs @ rs'\<rparr>)"
    by (simp add: callPerigonAPI_def)
qed

text \<open>
  C4 on concrete streams, read with \<open>JSON_parse\<close>: a complete frame without newline, a
  truncated trailing frame, and a frame tagged \<open>PING\<close>.
\<close>

theorem C4_stream_frames_witness:
  "callPerigonAPI JSON_parse
     (Some \<lparr>stream_ok = True, stream_status = 200, reads =
        [Chunk ''{\"type\":\"RESPONSE_CHUNK\",\"content\":\"Hi\"}'']\<rparr>)
   = \<lparr>content = ''Hi'', citations = []\<rparr>
   \<and> callPerigonAPI JSON_parse
     (Some \<lparr>stream_ok = True, stream_status = 200, reads =
        [Chunk ''{\"type\":\"RESPONSE_CHUNK\",\"content\":\"Hi\"}\<newline>{\"type\":\"RESPO'']\<rparr>)
   = failedAnswer
   \<and> callPerigonAPI JSON_parse
     (Some \<lparr>stream_ok = True, stream_status = 200, reads =
        [Chunk ''{\"type\":\"PING\"}'',
         Chunk ''{\"type\":\"RESPONSE_CHUNK\",\"content\":\"Hi\"}\<newline>'']\<rparr>)
   = \<lparr>content = ''Hi'', citations = []\<rparr>"
proof -
  have with_newline: "callPerigonAPI JSON_parse
     (Some \<lparr>stream_ok = True, stream_status = 200, reads =
        [Chunk ''{\"type\":\"RESPONSE_CHUNK\",\"content\":\"Hi\"}\<newline>'']\<rparr>)
   = \<lparr>content = ''Hi'', citations = []\<rparr>"
    by code_simp
  have 1: "callPerigonAPI JSON_parse
     (Some \<lparr>stream_ok = True, stream_status = 200, reads =
        [Chunk ''{\"type\":\"RESPONSE_CHUNK\",\"content\":\"Hi\"}'']\<rparr>)
   = \<lparr>content = ''Hi'', citations = []\<rparr>"
    using C4_stream_frames [where parse = JSON_parse and st = 200 and rs = "[]"
        and chunk = "''{\"type\":\"RESPONSE_CHUNK\",\"content\":\"Hi\"}''"]
      with_newline
    by simp
  have mem: "''{\"type\":\"RESPO'' \<in> set (split (CHR 0x0A)
      ''{\"type\":\"RESPONSE_CHUNK\",\"content\":\"Hi\"}\<newline>{\"type\":\"RESPO'')"
    by code_simp
  have nonblank: "trim ''{\"type\":\"RESPO'' \<noteq> []"
    by code_simp
  have 2: "callPerigonAPI JSON_parse
     (Some \<lparr>stream_ok = True, stream_status = 200, reads =
        [Chunk ''{\"type\":\"RESPONSE_CHUNK\",\"content\":\"Hi\"}\<newline>{\"type\":\"RESPO'']\<rparr>)
   = failedAnswer"
    using C4_stream_frames [where parse = JSON_parse
        and chunk = "''{\"type\":\"RESPONSE_CHUNK\",\"content\":\"Hi\"}\<newline>{\"type\":\"RESPO''"
        and resp = "\<lparr>stream_ok = True, stream_status = 200, reads =
        [Chunk ''{\"type\":\"RESPONSE_CHUNK\",\"content\":\"Hi\"}\<newline>{\"type\":\"RESPO'']\<rparr>"
        and l = "''{\"type\":\"RESPO''"]
      mem nonblank fragment_fails
    by simp
  have 3: "callPerigonAPI JSON_parse
     (Some \<lparr>stream_ok = True, stream_status = 200, reads =
        [Chunk ''{\"type\":\"PING\"}'',
         Chunk ''{\"type\":\"RESPONSE_CHUNK\",\"content\":\"Hi\"}\<newline>'']\<rparr>)
   = \<lparr>content = ''Hi'', citations = []\<rparr>"
    using C4_stream_frames [where parse = JSON_parse and st = 200 and rs = "[]"
        and l' = "''{\"type\":\"PING\"}''"
        and v = "JObj [(''type'', JStr ''PING'')]" and tag = "JStr ''PING''"
        and rs' = "[Chunk ''{\"type\":\"RESPONSE_CHUNK\",\"content\":\"Hi\"}\<newline>'']"]
      ping_parses with_newline
    by (simp add: member_of_def isLineTerminator_def)
  from 1 2 3 show ?thesis by simp
qed

section \<open>C5: failure of question generation\<close>

text \<open>
  C5, as stated, fails in its second part: nothing tests for the failure text. When the
  request of \<open>generateQuestion\<close> fails, the handler appends its clause to the failure text
  and calls \<open>callPerigonAPI\<close> with it.
\<close>

theorem C5_sentinel_counterexample:
  "streamCalls (run [Click ''a1'' ''T'' ''B'', QuestionResolves ''a1'' (generateQuestion None)]
      initialApp)
   = [(''a1'', ''Failed to generate question in less than 200 words'')]"
  by (simp add: run_def initialApp_def clickGoDeeper_def isDisabled_def
      handleCheckMainstream_def hasResponse_def objectPrototype_def questionResolves_def
      generateQuestion_def fetchJson_def andThen_def)

text \<open>
  C5, amended: when the request fails (the transport fails, or the response is not a
  success) \<open>generateQuestion\<close> returns the text \<open>Failed to generate question\<close> and throws
  nothing; and whatever \<open>generateQuestion\<close> returned, that text included, the handler
  appends \<open>in less than 200 words\<close> and passes it to \<open>callPerigonAPI\<close> as the question.
\<close>

theorem C5_failed_question_is_passed_on:
  "generateQuestion None = ''Failed to generate question''
   \<and> (\<not> ok resp \<longrightarrow> generateQuestion (Some resp) = ''Failed to generate question'')
   \<and> (awaitingQuestion s k \<noteq> 0 \<longrightarrow>
        streamCalls (questionResolves k (generateQuestion r) s)
          = streamCalls s @ [(k, generateQuestion r @ '' in less than 200 words'')])"
  by (simp add: generateQuestion_def fetchJson_def andThen_def questionResolves_def)

text \<open>
  C5 on a response with status 500.
\<close>

theorem C5_failed_question_is_passed_on_witness:
  "generateQuestion (Some \<lparr>ok = False, status = 500, json = None\<rparr>)
     = ''Failed to generate question''
   \<and> streamCalls (questionResolves ''a1''
         (generateQuestion (Some \<lparr>ok = False, status = 500, json = None\<rparr>))
         (handleCheckMainstream ''a1'' ''T'' ''B'' initialApp))
     = [(''a1'', ''Failed to generate question in less than 200 words'')]"
  using C5_failed_question_is_passed_on
    [of "\<lparr>ok = False, status = 500, json = None\<rparr>"
        "handleCheckMainstream ''a1'' ''T'' ''B'' initialApp" "''a1''"
        "Some \<lparr>ok = False, status = 500, json = None\<rparr>"]
  by (simp add: initialApp_def handleCheckMainstream_def hasResponse_def objectPrototype_def
      questionResolves_def)

section \<open>C6: the feed window\<close>

lemma daysInMonth_bounds: "28 \<le> daysInMonth y m \<and> daysInMonth y m \<le> 31"
  by (simp add: daysInMonth_def)

lemma validDate_prevDay:
  assumes "validDate d"
  shows "validDate (prevDay d)"
proof (cases "1 < day d")
  case True
  with assms show ?thesis by (auto simp add: validDate_def prevDay_def)
next
  case False
  show ?thesis
  proof (cases "1 < month d")
    case True
    with assms False daysInMonth_bounds [of "year d" "month d - 1"] show ?thesis
      by (auto simp add: validDate_def prevDay_def)
  next
    case m: False
    have "daysInMonth (year d - 1) 12 = 31" by (simp add: daysInMonth_def)
    with False m show ?thesis by (simp add: validDate_def prevDay_def)
  qed
qed

lemma prevDay_le: "validDate d \<Longrightarrow> dateLe (prevDay d) d"
  by (auto simp add: validDate_def prevDay_def dateLe_def)

lemma prevDay_neq:
  assumes "validDate d"
  shows "prevDay d \<noteq> d"
proof
  assume eq: "prevDay d = d"
  have "day (prevDay d) \<noteq> day d \<or> month (prevDay d) \<noteq> month d \<or> year (prevDay d) \<noteq> year d"
    using assms by (auto simp add: prevDay_def validDate_def)
  with eq show False by simp
qed

lemma dateLe_refl: "dateLe d d"
  by (simp add: dateLe_def)

lemma dateLe_trans: "dateLe a b \<Longrightarrow> dateLe b c \<Longrightarrow> dateLe a c"
  by (auto simp add: dateLe_def)

lemma validDate_funpow_prevDay: "validDate d \<Longrightarrow> validDate ((prevDay ^^ n) d)"
  by (induction n) (simp_all add: validDate_prevDay)

lemma funpow_prevDay_le: "validDate d \<Longrightarrow> dateLe ((prevDay ^^ n) d) d"
proof (induction n)
  case 0
  show ?case by (simp add: dateLe_refl)
next
  case (Suc n)
  have "dateLe (prevDay ((prevDay ^^ n) d)) ((prevDay ^^ n) d)"
    using Suc.prems by (intro prevDay_le validDate_funpow_prevDay)
  with Suc show ?case by (auto intro: dateLe_trans)
qed

lemma year_le_of_dateLe: "dateLe a b \<Longrightarrow> year a \<le> year b"
  by (auto simp add: dateLe_def)

lemma subDays_Suc:
  "0 \<le> n \<Longrightarrow> subDays d (n + 1) = prevDay (subDays d n)"
  by (simp add: subDays_def nat_add_distrib)

lemma digitChar_isDigit: "isDigit (digitChar n)"
proof -
  have "n mod 10 = 0 \<or> n mod 10 = 1 \<or> n mod 10 = 2 \<or> n mod 10 = 3 \<or> n mod 10 = 4
      \<or> n mod 10 = 5 \<or> n mod 10 = 6 \<or> n mod 10 = 7 \<or> n mod 10 = 8 \<or> n mod 10 = 9"
    by presburger
  then show ?thesis
    by (auto simp add: digitChar_def isDigit_def)
qed

lemma showNat_digits: "\<forall>c \<in> set (showNat n). isDigit c"
proof (induction n rule: showNat.induct)
  case (1 n)
  show ?case
  proof (cases "n < 10")
    case True
    then have "showNat n = [digitChar n]"
      by (subst showNat.simps) simp
    then show ?thesis by (simp add: digitChar_isDigit)
  next
    case False
    then have "showNat n = showNat (n div 10) @ [digitChar n]"
      by (subst showNat.simps) simp
    with 1 False show ?thesis by (simp add: digitChar_isDigit)
  qed
qed

lemma showNat_length: "n < 10 ^ k \<Longrightarrow> 0 < k \<Longrightarrow> length (showNat n) \<le> k"
proof (induction k arbitrary: n)
  case 0
  then show ?case by simp
next
  case (Suc k)
  show ?case
  proof (cases "n < 10")
    case True
    then have "showNat n = [digitChar n]"
      by (subst showNat.simps) simp
    then show ?thesis by simp
  next
    case False
    then have s: "showNat n = showNat (n div 10) @ [digitChar n]"
      by (subst showNat.simps) simp
    from False Suc.prems have k: "0 < k" by (cases k) auto
    have "n div 10 < 10 ^ k" using Suc.prems(1) by (simp add: less_mult_imp_div_less mult.commute)
    then have "length (showNat (n div 10)) \<le> k" using Suc.IH k by simp
    with s show ?thesis by simp
  qed
qed

lemma padStart_digits:
  assumes "length (showNat n) \<le> k"
  shows "length (padStart k (showNat n)) = k \<and> (\<forall>c \<in> set (padStart k (showNat n)). isDigit c)"
  using assms showNat_digits [of n]
  by (auto simp add: padStart_def isDigit_def)

lemma isIsoDate_format:
  assumes "validDate d" and "1 \<le> year d" and "year d \<le> 9999"
  shows "isIsoDate (format_yyyy_MM_dd d)"
proof -
  have y: "nat (year d) < 10 ^ 4" using assms(2,3) by simp
  have m: "month d < 10 ^ 2" using assms(1) by (simp add: validDate_def)
  have "day d \<le> 31"
    using assms(1) daysInMonth_bounds [of "year d" "month d"] by (simp add: validDate_def)
  then have dd: "day d < 10 ^ 2" by simp
  obtain ys where ys: "ys = padStart 4 (showNat (nat (year d)))" by simp
  obtain ms where ms: "ms = padStart 2 (showNat (month d))" by simp
  obtain ds where ds: "ds = padStart 2 (showNat (day d))" by simp
  have py: "length ys = 4 \<and> (\<forall>c \<in> set ys. isDigit c)"
    unfolding ys using showNat_length [OF y] by (intro padStart_digits) simp
  have pm: "length ms = 2 \<and> (\<forall>c \<in> set ms. isDigit c)"
    unfolding ms using showNat_length [OF m] by (intro padStart_digits) simp
  have pd: "length ds = 2 \<and> (\<forall>c \<in> set ds. isDigit c)"
    unfolding ds using showNat_length [OF dd] by (intro padStart_digits) simp
  obtain y0 y1 y2 y3 where y4: "ys = [y0, y1, y2, y3]"
    using py by (auto simp add: length_Suc_conv eval_nat_numeral)
  obtain m0 m1 where m2: "ms = [m0, m1]"
    using pm by (auto simp add: length_Suc_conv eval_nat_numeral)
  obtain d0 d1 where d2: "ds = [d0, d1]"
    using pd by (auto simp add: length_Suc_conv eval_nat_numeral)
  have "format_yyyy_MM_dd d = ys @ ''-'' @ ms @ ''-'' @ ds"
    using assms(2) by (simp add: format_yyyy_MM_dd_def ys ms ds)
  then show ?thesis
    using py pm pd by (simp add: y4 m2 d2 isIsoDate_def)
qed

lemma subDays_nonneg: "0 \<le> n \<Longrightarrow> subDays d n = (prevDay ^^ nat n) d"
  by (simp add: subDays_def)

text \<open>
  The offset starts at 0, and the two buttons keep it from going below 0.
\<close>

lemma handleDateChange_nonneg:
  "0 \<le> dateOffset \<Longrightarrow> 0 \<le> handleDateChange direction dateOffset"
  by (simp add: handleDateChange_def)

text \<open>
  C6. For a valid calendar date \<open>today\<close> and an offset \<open>\<ge> 0\<close>, both requests carry
  \<open>from = today - (offset + 1)\<close> days and \<open>to = today - offset\<close> days, the same in the faith
  and in the mainstream request; \<open>from\<close> is \<open>to\<close> minus one day, hence earlier than \<open>to\<close>;
  \<open>to\<close> is not after \<open>today\<close>; both are calendar dates, printed as \<open>YYYY-MM-DD\<close> as long as
  the years stay within 1 to 9999.
\<close>

theorem C6_feed_window:
  assumes "validDate today" and "0 \<le> dateOffset"
  shows "fetchFaithNews_API_URL apiKey today dateOffset selectedSources selectedCategories =
           ''https://api.goperigon.com/v1/all?apiKey='' @ apiKey @
           ''&from='' @ format_yyyy_MM_dd (subDays today (dateOffset + 1)) @
           ''&to='' @ format_yyyy_MM_dd (subDays today dateOffset) @
           ''&showNumResults=true&size=18&sortBy=date&'' @
           joinWith ''&'' (map (\<lambda>source. ''source='' @ source) selectedSources) @ ''&'' @
           joinWith ''&'' (map (\<lambda>category. ''category='' @ category) selectedCategories)
         \<and> fetchMainstreamNews_API_URL apiKey today dateOffset =
           ''https://api.goperigon.com/v1/headlines?apiKey='' @ apiKey @
           ''&from='' @ format_yyyy_MM_dd (subDays today (dateOffset + 1)) @
           ''&to='' @ format_yyyy_MM_dd (subDays today dateOffset) @
           ''&sourceGroup=top10&showNumResults=true&size=18&sortBy=date''
         \<and> subDays today (dateOffset + 1) = subDays (subDays today dateOffset) 1
         \<and> subDays today (dateOffset + 1) \<noteq> subDays today dateOffset
         \<and> dateLe (subDays today (dateOffset + 1)) (subDays today dateOffset)
         \<and> dateLe (subDays today dateOffset) today
         \<and> validDate (subDays today (dateOffset + 1))
         \<and> validDate (subDays today dateOffset)
         \<and> (year today \<le> 9999 \<and> 1 \<le> year (subDays today (dateOffset + 1)) \<longrightarrow>
              isIsoDate (format_yyyy_MM_dd (subDays today (dateOffset + 1)))
              \<and> isIsoDate (format_yyyy_MM_dd (subDays today dateOffset)))"
proof -
  let ?to = "subDays today dateOffset"
  let ?from = "subDays today (dateOffset + 1)"
  have vto: "validDate ?to"
    using assms(1,2) by (simp add: subDays_nonneg validDate_funpow_prevDay)
  have step: "?from = prevDay ?to"
    using assms(2) by (rule subDays_Suc)
  have vfrom: "validDate ?from"
    using vto step by (simp add: validDate_prevDay)
  have one: "subDays ?to 1 = prevDay ?to"
    by (simp add: subDays_def)
  have le1: "dateLe ?from ?to" and ne: "?from \<noteq> ?to"
    using vto step prevDay_le prevDay_neq by simp_all
  have le2: "dateLe ?to today"
    using assms(1,2) by (simp add: subDays_nonneg funpow_prevDay_le)
  have iso: "isIsoDate (format_yyyy_MM_dd ?from) \<and> isIsoDate (format_yyyy_MM_dd ?to)"
    if y: "year today \<le> 9999" "1 \<le> year ?from"
  proof -
    have yto: "year ?to \<le> 9999" "1 \<le> year ?to"
      using year_le_of_dateLe [OF le2] year_le_of_dateLe [OF le1] y by simp_all
    have yfrom: "year ?from \<le> 9999"
      using year_le_of_dateLe [OF le1] yto(1) by simp
    have "isIsoDate (format_yyyy_MM_dd ?from)"
      using vfrom y(2) yfrom by (rule isIsoDate_format)
    moreover have "isIsoDate (format_yyyy_MM_dd ?to)"
      using vto yto(2) yto(1) by (rule isIsoDate_format)
    ultimately show ?thesis by simp
  qed
  have u1: "fetchFaithNews_API_URL apiKey today dateOffset selectedSources selectedCategories =
           ''https://api.goperigon.com/v1/all?apiKey='' @ apiKey @
           ''&from='' @ format_yyyy_MM_dd ?from @
           ''&to='' @ format_yyyy_MM_dd ?to @
           ''&showNumResults=true&size=18&sortBy=date&'' @
           joinWith ''&'' (map (\<lambda>source. ''source='' @ source) selectedSources) @ ''&'' @
           joinWith ''&'' (map (\<lambda>category. ''category='' @ category) selectedCategories)"
    by (simp add: fetchFaithNews_API_URL_def Let_def)
  have u2: "fetchMainstreamNews_API_URL apiKey today dateOffset =
           ''https://api.goperigon.com/v1/headlines?apiKey='' @ apiKey @
           ''&from='' @ format_yyyy_MM_dd ?from @
           ''&to='' @ format_yyyy_MM_dd ?to @
           ''&sourceGroup=top10&showNumResults=true&size=18&sortBy=date''"
    by (simp add: fetchMainstreamNews_API_URL_def Let_def)
  from u1 u2 step one le1 ne le2 vfrom vto iso show ?thesis by simp
qed

text \<open>
  C6 on 1 March 2024 with offset 0: the window is 2024-02-29 to 2024-03-01.
\<close>

theorem C6_feed_window_witness:
  "fetchMainstreamNews_API_URL ''K'' \<lparr>year = 2024, month = 3, day = 1\<rparr> 0 =
     ''https://api.goperigon.com/v1/headlines?apiKey=K&from=2024-02-29&to=2024-03-01&sourceGroup=top10&showNumResults=true&size=18&sortBy=date''
   \<and> fetchFaithNews_API_URL ''K'' \<lparr>year = 2024, month = 3, day = 1\<rparr> 0 [''cbn.com'', ''wng.org''] [''Tech''] =
     ''https://api.goperigon.com/v1/all?apiKey=K&from=2024-02-29&to=2024-03-01&showNumResults=true&size=18&sortBy=date&source=cbn.com&source=wng.org&category=Tech''
   \<and> subDays \<lparr>year = 2024, month = 3, day = 1\<rparr> 1 = \<lparr>year = 2024, month = 2, day = 29\<rparr>
   \<and> dateLe (subDays \<lparr>year = 2024, month = 3, day = 1\<rparr> 0) \<lparr>year = 2024, month = 3, day = 1\<rparr>
   \<and> isIsoDate ''2024-02-29'' \<and> isIsoDate ''2024-03-01''"
proof -
  have v: "validDate \<lparr>year = 2024, month = 3, day = 1\<rparr>" by code_simp
  have o: "(0::int) \<le> 0" by simp
  have y: "year \<lparr>year = 2024, month = 3, day = 1\<rparr> \<le> 9999" by simp
  have f: "subDays \<lparr>year = 2024, month = 3, day = 1\<rparr> (0 + 1) = \<lparr>year = 2024, month = 2, day = 29\<rparr>"
    by code_simp
  have t: "subDays \<lparr>year = 2024, month = 3, day = 1\<rparr> 0 = \<lparr>year = 2024, month = 3, day = 1\<rparr>"
    by code_simp
  have ff: "format_yyyy_MM_dd \<lparr>year = 2024, month = 2, day = 29\<rparr> = ''2024-02-29''" by code_simp
  have ft: "format_yyyy_MM_dd \<lparr>year = 2024, month = 3, day = 1\<rparr> = ''2024-03-01''" by code_simp
  note w = C6_feed_window [OF v o, of "''K''" "[''cbn.com'', ''wng.org'']" "[''Tech'']",
      unfolded f t ff ft]
  have f1: "subDays \<lparr>year = 2024, month = 3, day = 1\<rparr> 1 = \<lparr>year = 2024, month = 2, day = 29\<rparr>"
    using f by simp
  show ?thesis
    using w by (simp add: joinWith_def f1 t dateLe_def del: One_nat_def)
qed

section \<open>C7: texts without markers, tokens and label\<close>

text \<open>
  C7, as stated, fails: the third step removes a leading \<open>Perigon Response:\<close> label,
  also from a text with no bold marker and no bracket token.
\<close>

theorem C7_prefix_counterexample:
  "\<not> containsBoldMarker ''Perigon Response: Hello''
   \<and> \<not> containsBracketToken ''Perigon Response: Hello''
   \<and> formatPerigonResponse (JStr ''Perigon Response: Hello'') [] = Inr ''Hello''"
proof -
  have "\<not> containsBoldMarker ''Perigon Response: Hello''"
    by (rule no_star_no_bold_marker) simp
  moreover have "\<not> containsBracketToken ''Perigon Response: Hello''"
    by (rule no_bracket_no_token) simp
  moreover have "formatPerigonResponse (JStr ''Perigon Response: Hello'') [] = Inr ''Hello''"
    by code_simp
  ultimately show ?thesis by simp
qed

text \<open>
  C7, amended: for every answer text that contains no bold marker and no bracket token
  and does not start with the label \<open>Perigon Response:\<close> (in any letter case), the
  formatter returns the text unchanged, whatever the citations.
\<close>

theorem C7_plain_text_unchanged:
  assumes "\<not> containsBoldMarker text" and "\<not> containsBracketToken text"
    and "\<not> hasPerigonPrefix text"
  shows "formatPerigonResponse (JStr text) citationList = Inr text"
  using assms
  by (auto simp add: formatPerigonResponse_def stripPrefix_def replaceBold_no_marker
        replaceCitations_no_token)

text \<open>
  C7 on a text with a lone \<open>*\<close>, an unclosed \<open>**\<close> and brackets around a word.
\<close>

theorem C7_plain_text_unchanged_witness:
  "formatPerigonResponse (JStr ''2 * [x] **'')
     [\<lparr>sequenceIndex = 1, url = ''https://a''\<rparr>] = Inr ''2 * [x] **''"
proof -
  have "\<not> containsBoldMarker ''2 * [x] **''" by code_simp
  moreover have "\<not> containsBracketToken ''2 * [x] **''" by code_simp
  moreover have "\<not> hasPerigonPrefix ''2 * [x] **''" by code_simp
  ultimately show ?thesis by (rule C7_plain_text_unchanged)
qed

section \<open>C8: a feed response without a cluster list\<close>




section \<open>C9: resolution of the bias rating\<close>

text \<open>
  C9. Bias-rating resolution: the result is the first rating, in the order MBFC, AllSides,
  Ad Fontes, that the \<open>||\<close> chain finds present (a missing, \<open>null\<close> or empty field counts
  as absent), and \<open>null\<close> when none is; a present MBFC rating is returned whatever the
  other fields hold.
\<close>

theorem C9_bias_rating_priority:
  "getBiasRating source =
     (case filter truthy [optChain source ''mbfcBiasRating'',
                          optChain source ''allSidesBiasRating'',
                          optChain source ''adFontesBiasRating''] of
        [] \<Rightarrow> JNull | rating # others \<Rightarrow> rating)
   \<and> (truthy (optChain source ''mbfcBiasRating'') \<longrightarrow>
        getBiasRating source = optChain source ''mbfcBiasRating'')
   \<and> (\<not> truthy (optChain source ''mbfcBiasRating'') \<and>
      \<not> truthy (optChain source ''allSidesBiasRating'') \<and>
      \<not> truthy (optChain source ''adFontesBiasRating'') \<longrightarrow> getBiasRating source = JNull)"
  by (simp add: getBiasRating_def jsOr_def)

text \<open>
  C9 on a source with the MBFC and the AllSides rating, on a source with none, and on no
  source.
\<close>

theorem C9_bias_rating_priority_witness:
  "getBiasRating (JObj [(''domain'', JStr ''cbn.com''), (''mbfcBiasRating'', JStr ''Right''),
      (''allSidesBiasRating'', JStr ''Lean Right'')]) = JStr ''Right''
   \<and> getBiasRating (JObj [(''domain'', JStr ''cbn.com'')]) = JNull
   \<and> getBiasRating JUndefined = JNull"
  using C9_bias_rating_priority
    [of "JObj [(''domain'', JStr ''cbn.com''), (''mbfcBiasRating'', JStr ''Right''),
      (''allSidesBiasRating'', JStr ''Lean Right'')]"]
    C9_bias_rating_priority [of "JObj [(''domain'', JStr ''cbn.com'')]"]
    C9_bias_rating_priority [of JUndefined]
  by (simp add: optChain_def member_of_def)

section \<open>C10: an absent answer text\<close>

text \<open>
  C10. For every list of citations, the formatter returns the empty text for an answer
  text that is \<open>null\<close>, \<open>undefined\<close> or empty; the citations play no part.
\<close>

theorem C10_absent_text:
  "formatPerigonResponse JNull citationList = Inr []
   \<and> formatPerigonResponse JUndefined citationList = Inr []
   \<and> formatPerigonResponse (JStr []) citationList = Inr []"
  by (simp add: formatPerigonResponse_def)

end
